theory Spec2Isabelle
  imports Main "HOL-Library.Word"
begin

unbundle bit_operations_syntax

section \<open>ELF structures and constants (LP64 variant of elflink.c)\<close>

text \<open>
  The model follows the \<^verbatim>\<open>__LP64__\<close> branch of the source: pointers and
  \<^verbatim>\<open>unsigned long\<close> are 64-bit words, \<^verbatim>\<open>Elf64_Word\<close> is a 32-bit word,
  \<^verbatim>\<open>sizeof(Elf64_Dyn) = 16\<close> and \<^verbatim>\<open>sizeof(Elf64_Sym) = 24\<close>. Only the fields
  the source reads are kept. Pointer comparison is unsigned comparison of addresses.
\<close>

record Elf_Phdr =
  p_type :: "32 word"
  p_flags :: "32 word"
  p_vaddr :: "64 word"
  p_filesz :: "64 word"
  p_memsz :: "64 word"

record Elf_Dyn =
  d_tag :: "64 word"
  d_ptr :: "64 word"

record Elf_Sym =
  st_info :: "8 word"
  st_value :: "64 word"
  st_size :: "64 word"

definition PT_LOAD :: "32 word" where "PT_LOAD = 1"
definition PT_DYNAMIC :: "32 word" where "PT_DYNAMIC = 2"
definition PF_X :: "32 word" where "PF_X = 1"
definition PF_W :: "32 word" where "PF_W = 2"
definition PF_R :: "32 word" where "PF_R = 4"
definition DT_NULL :: "64 word" where "DT_NULL = 0"
definition DT_STRTAB :: "64 word" where "DT_STRTAB = 5"
definition DT_SYMTAB :: "64 word" where "DT_SYMTAB = 6"
definition STB_GLOBAL :: "8 word" where "STB_GLOBAL = 1"
definition STB_WEAK :: "8 word" where "STB_WEAK = 2"
definition STT_OBJECT :: "8 word" where "STT_OBJECT = 1"
definition PROT_READ :: "32 word" where "PROT_READ = 1"
definition PROT_WRITE :: "32 word" where "PROT_WRITE = 2"
definition PROT_EXEC :: "32 word" where "PROT_EXEC = 4"
definition MAP_SHARED :: "32 word" where "MAP_SHARED = 1"
definition MAP_PRIVATE :: "32 word" where "MAP_PRIVATE = 2"
definition MAP_FIXED :: "32 word" where "MAP_FIXED = 16"
definition MAP_FAILED :: "64 word" where "MAP_FAILED = - 1"
definition O_RDONLY :: "32 word" where "O_RDONLY = 0"
definition O_RDWR :: "32 word" where "O_RDWR = 2"
definition O_CREAT :: "32 word" where "O_CREAT = 64"
definition O_EXCL :: "32 word" where "O_EXCL = 128"
definition S_IFMT :: "32 word" where "S_IFMT = 61440"
definition S_IFDIR :: "32 word" where "S_IFDIR = 16384"
definition S_IWGRP :: "32 word" where "S_IWGRP = 16"
definition S_IWOTH :: "32 word" where "S_IWOTH = 2"
definition EEXIST :: int where "EEXIST = 17"
definition ENOENT :: int where "ENOENT = 2"
definition SIGABRT :: int where "SIGABRT = 6"
definition PATH_MAX :: nat where "PATH_MAX = 4096"
definition INT_MAX :: nat where "INT_MAX = 2147483647"
definition MAX_HTLB_SEGS :: nat where "MAX_HTLB_SEGS = 2"

text \<open>
  Modelled from the spec: the segment flag \<^verbatim>\<open>PF_LINUX_HUGETLB\<close> is declared in
  hugetlbfs.h, which is not among the sources. The spec calls it the
  processor-specific flag bit that marks a segment for huge-page promotion; the value
  below is the one of the library's header, and no theorem depends on it.
\<close>

definition PF_LINUX_HUGETLB :: "32 word" where "PF_LINUX_HUGETLB = 1048576"

text \<open>
  Modelled from the spec: the macro \<^verbatim>\<open>ALIGN(x, a)\<close> is declared in
  libhugetlbfs_internal.h, which is not among the sources. The spec reads it as
  "align up to the huge page size"; it is the usual power-of-two round-up
  \<^verbatim>\<open>(x + a - 1) & ~(a - 1)\<close> on unsigned long.
\<close>

definition ALIGN :: "64 word \<Rightarrow> 64 word \<Rightarrow> 64 word" where
  "ALIGN x a = (x + a - 1) AND NOT (a - 1)"

definition ELF_ST_BIND :: "8 word \<Rightarrow> 8 word" where
  "ELF_ST_BIND x = drop_bit 4 x"

definition ELF_ST_TYPE :: "8 word \<Rightarrow> 8 word" where
  "ELF_ST_TYPE x = x AND 15"

section \<open>Segment descriptors and the loaded image\<close>

record seg_info =
  vaddr :: "64 word"
  extra_vaddr :: "64 word"
  filesz :: "64 word"
  memsz :: "64 word"
  extrasz :: "64 word"
  prot :: "32 word"
  fd :: int
  index :: nat

text \<open>
  The process's own loaded image, as the scanner reads it through pointers:
  \<open>phdr i\<close> is \<^verbatim>\<open>phdr[i]\<close> for the table at \<^verbatim>\<open>ehdr + e_phoff\<close> (indices at or
  beyond \<open>e_phnum\<close> hold whatever follows the table in memory), \<open>dyn_at a\<close> and
  \<open>sym_at a\<close> are the \<^verbatim>\<open>Elf_Dyn\<close> and \<^verbatim>\<open>Elf_Sym\<close> stored at address \<open>a\<close>.
  \<open>executable_start\<close> tells whether the weak symbol \<^verbatim>\<open>__executable_start\<close> is
  defined, \<open>libhuge_filesz\<close> is the address of the weak symbol
  \<^verbatim>\<open>__libhuge_filesz\<close> (0 when it is undefined).
\<close>

record elf_image =
  executable_start :: bool
  e_phnum :: "16 word"
  phdr :: "nat \<Rightarrow> Elf_Phdr"
  dyn_at :: "64 word \<Rightarrow> Elf_Dyn"
  sym_at :: "64 word \<Rightarrow> Elf_Sym"
  libhuge_filesz :: "64 word"

section \<open>The binary image scanner\<close>

text \<open>
  \<^verbatim>\<open>find_dynamic\<close>: the loop condition reads \<^verbatim>\<open>phdr[i].p_type\<close> before it
  tests \<^verbatim>\<open>i < phnum\<close>, and the test after the loop reads \<^verbatim>\<open>phdr[i]\<close> once more.
  The model returns the result (\<open>Some dyntab\<close> for 0, \<open>None\<close> for -1) together
  with the indices read, in order.
\<close>

function find_dynamic_loop :: "(nat \<Rightarrow> Elf_Phdr) \<Rightarrow> int \<Rightarrow> nat \<Rightarrow> nat list \<Rightarrow> nat \<times> nat list" where
  "find_dynamic_loop ph phnum i reads =
     (if p_type (ph i) \<noteq> PT_DYNAMIC \<and> int i < phnum
      then find_dynamic_loop ph phnum (Suc i) (reads @ [i])
      else (i, reads @ [i]))"
  by pat_completeness auto
termination
  by (relation "measure (\<lambda>(ph, phnum, i, reads). nat (phnum - int i))") auto

declare find_dynamic_loop.simps [simp del]

definition find_dynamic :: "(nat \<Rightarrow> Elf_Phdr) \<Rightarrow> int \<Rightarrow> 64 word option \<times> nat list" where
  "find_dynamic ph phnum =
     (let (i, reads) = find_dynamic_loop ph phnum 1 []
      in if p_type (ph i) = PT_DYNAMIC
         then (Some (p_vaddr (ph i)), reads @ [i])
         else (None, reads @ [i]))"

text \<open>
  \<^verbatim>\<open>find_tables\<close>: the walk over the dynamic section starts at index 1 and stops at
  the first \<^verbatim>\<open>DT_NULL\<close>. The index is a C int; running past \<^verbatim>\<open>INT_MAX\<close> is
  undefined behaviour, which the model reports as \<open>None\<close>.
\<close>

function find_tables_loop ::
  "(64 word \<Rightarrow> Elf_Dyn) \<Rightarrow> 64 word \<Rightarrow> nat \<Rightarrow> 64 word \<Rightarrow> 64 word \<Rightarrow> (64 word \<times> 64 word) option" where
  "find_tables_loop mem dyntab i symtab strtab =
     (if d_tag (mem (dyntab + 16 * of_nat i)) \<noteq> DT_NULL
      then (if i < INT_MAX
            then find_tables_loop mem dyntab (Suc i)
                   (if d_tag (mem (dyntab + 16 * of_nat i)) = DT_SYMTAB
                    then d_ptr (mem (dyntab + 16 * of_nat i)) else symtab)
                   (if d_tag (mem (dyntab + 16 * of_nat i)) = DT_SYMTAB then strtab
                    else if d_tag (mem (dyntab + 16 * of_nat i)) = DT_STRTAB
                    then d_ptr (mem (dyntab + 16 * of_nat i)) else strtab)
            else None)
      else Some (symtab, strtab))"
  by pat_completeness auto
termination
  by (relation "measure (\<lambda>(mem, dyntab, i, symtab, strtab). INT_MAX - i)") auto

declare find_tables_loop.simps [simp del]

definition find_tables :: "(64 word \<Rightarrow> Elf_Dyn) \<Rightarrow> 64 word \<Rightarrow> (int \<times> 64 word \<times> 64 word) option" where
  "find_tables mem dyntab =
     (case find_tables_loop mem dyntab 1 0 0 of
        None \<Rightarrow> None
      | Some (symtab, strtab) \<Rightarrow>
          Some (if symtab = 0 then - 1 else if strtab = 0 then - 1 else 0, symtab, strtab))"

text \<open>
  \<^verbatim>\<open>find_numsyms\<close>: the byte distance is divided by \<^verbatim>\<open>sizeof(Elf_Sym)\<close> as an
  unsigned long and returned as a C int (the low 32 bits, read as two's complement).
\<close>

definition find_numsyms :: "64 word \<Rightarrow> 64 word \<Rightarrow> int" where
  "find_numsyms symtab strtab =
     (if strtab \<le> symtab then - 1
      else sint (ucast ((strtab - symtab) div 24) :: 32 word))"

definition keep_symbol :: "Elf_Sym \<Rightarrow> 64 word \<Rightarrow> 64 word \<Rightarrow> int" where
  "keep_symbol s start end_addr =
     (if st_value s < start then 0
      else if st_value s > end_addr then 0
      else if ELF_ST_BIND (st_info s) \<noteq> STB_GLOBAL \<and> ELF_ST_BIND (st_info s) \<noteq> STB_WEAK then 0
      else if ELF_ST_TYPE (st_info s) \<noteq> STT_OBJECT then 0
      else if st_size s = 0 then 0
      else 1)"

text \<open>
  The symbols the \<^verbatim>\<open>for\<close> loop of \<^verbatim>\<open>get_extracopy\<close> visits:
  \<^verbatim>\<open>symtab[0] .. symtab[numsyms - 1]\<close>. (With \<open>numsyms\<close> from \<open>find_numsyms\<close>
  the bound \<^verbatim>\<open>symtab + numsyms\<close> does not exceed \<^verbatim>\<open>strtab\<close>, so the pointer
  comparison of the loop is the comparison of the indices.)
\<close>

definition symbol_table :: "(64 word \<Rightarrow> Elf_Sym) \<Rightarrow> 64 word \<Rightarrow> int \<Rightarrow> Elf_Sym list" where
  "symbol_table mem symtab numsyms = map (\<lambda>k. mem (symtab + 24 * of_nat k)) [0 ..< nat numsyms]"

text \<open>The loop body: the triple is \<^verbatim>\<open>(found_sym, start, end)\<close>.\<close>

fun scan_symbols :: "Elf_Sym list \<Rightarrow> 64 word \<Rightarrow> 64 word \<Rightarrow> bool \<times> 64 word \<times> 64 word \<Rightarrow> bool \<times> 64 word \<times> 64 word" where
  "scan_symbols [] start_orig end_orig acc = acc"
| "scan_symbols (s # syms) start_orig end_orig (found_sym, start, end_addr) =
     (if keep_symbol s start_orig end_orig = 0
      then scan_symbols syms start_orig end_orig (found_sym, start, end_addr)
      else scan_symbols syms start_orig end_orig
             (True,
              if st_value s < start then st_value s else start,
              if st_value s + st_size s > end_addr then st_value s + st_size s else end_addr))"

text \<open>The adjustment for the sentinel symbol \<^verbatim>\<open>__libhuge_filesz\<close> after the loop.\<close>

definition apply_sentinel :: "64 word \<Rightarrow> 64 word \<Rightarrow> 64 word \<Rightarrow> 64 word \<times> 64 word \<Rightarrow> 64 word \<times> 64 word" where
  "apply_sentinel sentinel start_orig end_orig se =
     (case se of (start, end_addr) \<Rightarrow>
        if sentinel > end_addr
        then (if start = end_orig then start_orig else start, sentinel)
        else (start, end_addr))"

text \<open>The two exits through \<^verbatim>\<open>bail\<close>/\<^verbatim>\<open>bail2\<close>: the whole zero-fill tail.\<close>

definition whole_tail :: "seg_info \<Rightarrow> seg_info" where
  "whole_tail seg = seg\<lparr>extra_vaddr := vaddr seg + filesz seg,
                         extrasz := (vaddr seg + memsz seg) - (vaddr seg + filesz seg)\<rparr>"

text \<open>
  \<^verbatim>\<open>get_extracopy\<close>. \<open>None\<close> is the undefined behaviour of \<open>find_tables\<close>. The
  diagnostic pass \<^verbatim>\<open>check_bss\<close> (under \<^verbatim>\<open>__debug\<close>) only prints warnings and is
  left out, as are the DEBUG messages.
\<close>

definition get_extracopy :: "elf_image \<Rightarrow> int \<Rightarrow> seg_info \<Rightarrow> int \<Rightarrow> seg_info option" where
  "get_extracopy img minimal seg phnum =
     (let end_orig = vaddr seg + memsz seg;
          start_orig = vaddr seg + filesz seg
      in if filesz seg = memsz seg then Some seg
         else if minimal = 0 then Some (whole_tail seg)
         else case fst (find_dynamic (phdr img) phnum) of
                None \<Rightarrow> Some (whole_tail seg)
              | Some dyntab \<Rightarrow>
                 (case find_tables (dyn_at img) dyntab of
                    None \<Rightarrow> None
                  | Some (ret, symtab, strtab) \<Rightarrow>
                      if ret < 0 then Some (whole_tail seg)
                      else if find_numsyms symtab strtab < 0 then Some (whole_tail seg)
                      else
                        (case scan_symbols (symbol_table (sym_at img) symtab (find_numsyms symtab strtab))
                                start_orig end_orig (False, end_orig, start_orig) of
                           (found_sym, se) \<Rightarrow>
                             (case apply_sentinel (libhuge_filesz img) start_orig end_orig se of
                                (start, end_addr) \<Rightarrow>
                                  if found_sym
                                  then Some (seg\<lparr>extra_vaddr := start, extrasz := end_addr - start\<rparr>)
                                  else Some seg))))"

section \<open>The process: operating-system calls, globals and outcomes\<close>

text \<open>
  Every call that leaves the program (system calls, libc and the library's own helpers
  outside elflink.c) is recorded in a trace together with the function of elflink.c that
  issued it and the reply it got. Replies come from an arbitrary oracle indexed by the
  position in the trace, so a theorem about all states covers every behaviour of the
  kernel, the file system and competing processes.
\<close>

datatype site =
    In_assemble_path
  | In_find_or_create_share_path
  | In_get_shared_file_name
  | In_prepare_segment
  | In_find_or_prepare_shared_file
  | In_obtain_prepared_file
  | In_remap_segments
  | In_unmapped_abort

datatype call =
    Mmap "64 word" "64 word" "32 word" "32 word" int "64 word"
  | Munmap "64 word" "64 word"
  | Memcpy "64 word" "64 word" "64 word"
  | Open_file string "32 word" "32 word"
  | Unlink string
  | Close_fd int
  | Rename string string
  | Sleep nat
  | Mkdir string "32 word"
  | Lstat string
  | Readlink string
  | Hugetlbfs_test_path string
  | Hugetlbfs_unlinked_fd
  | Direct_write int string
  | Direct_getpid
  | Direct_kill int int
  | Libc_abort

text \<open>
  A reply: the return value, the errno the call sets when it fails, and for
  \<^verbatim>\<open>lstat\<close> and \<^verbatim>\<open>readlink\<close> the data written through the pointer argument.
\<close>

record reply =
  rv :: int
  rerrno :: int
  st_mode :: "32 word"
  st_uid :: "32 word"
  buf :: string

text \<open>
  The state: the environment of the process (\<^verbatim>\<open>getenv\<close>, the oracle, \<^verbatim>\<open>getuid()\<close>,
  \<^verbatim>\<open>gethugepagesize()\<close>, \<^verbatim>\<open>hugetlbfs_find_path()\<close>, libc's \<^verbatim>\<open>atoi\<close>, and what
  a \<^verbatim>\<open>SIGABRT\<close> does to the process), the trace and errno, and the static variables
  of elflink.c.

  \<open>sigabrt_fatal\<close> holds when \<^verbatim>\<open>SIGABRT\<close> has its default action and is not blocked,
  so that the signal ends the process. It does not hold in a process that has inherited
  an ignored or a blocked \<^verbatim>\<open>SIGABRT\<close> from its parent: both survive \<^verbatim>\<open>execve\<close>, and
  elflink.c runs as a constructor, before the program could change either.
\<close>

record state =
  getenv :: "string \<Rightarrow> string option"
  reply_at :: "nat \<Rightarrow> reply"
  getuid :: "32 word"
  gethugepagesize :: "64 word"
  hugetlbfs_find_path :: "string option"
  atoi :: "string \<Rightarrow> int"
  sigabrt_fatal :: bool
  trace :: "(site \<times> call \<times> reply) list"
  errno :: int
  share_path :: string
  htlb_seg_table :: "seg_info list"
  htlb_num_segs :: nat
  minimal_copy :: int
  sharing :: int
  debug :: int

definition sys :: "site \<Rightarrow> call \<Rightarrow> state \<Rightarrow> reply \<times> state" where
  "sys w c s =
     (let r = reply_at s (length (trace s))
      in (r, s\<lparr>trace := trace s @ [(w, c, r)],
                errno := (if rv r < 0 then rerrno r else errno s)\<rparr>))"

text \<open>
  How a function of the program ends: it returns a value, the process is terminated by
  \<^verbatim>\<open>SIGABRT\<close> inside the function, it is still polling for a competing preparer when
  the retry budget of the model runs out, or the scanner ran into undefined behaviour.
\<close>

datatype 'a outcome =
    Returns 'a state
  | Terminated state
  | Waiting state
  | Undefined state

fun state_of :: "'a outcome \<Rightarrow> state" where
  "state_of (Returns a s) = s"
| "state_of (Terminated s) = s"
| "state_of (Waiting s) = s"
| "state_of (Undefined s) = s"

fun and_then :: "'a outcome \<Rightarrow> ('a \<Rightarrow> state \<Rightarrow> 'b outcome) \<Rightarrow> 'b outcome" where
  "and_then (Returns a s) f = f a s"
| "and_then (Terminated s) f = Terminated s"
| "and_then (Waiting s) f = Waiting s"
| "and_then (Undefined s) f = Undefined s"

section \<open>The unmapped-safe abort path\<close>

definition digit :: "nat \<Rightarrow> char" where
  "digit d = ''0123456789abcdef'' ! d"

text \<open>
  The digit loop of \<^verbatim>\<open>write_err_base\<close>, least significant digit first. The source
  calls it with base 10 and base 16 only.
\<close>

function digits_lsb :: "nat \<Rightarrow> nat \<Rightarrow> string" where
  "digits_lsb val base =
     (if val = 0 \<or> base < 2 then []
      else digit (val mod base) # digits_lsb (val div base) base)"
  by pat_completeness auto
termination
  by (relation "measure (\<lambda>(val, base). val)") auto

declare digits_lsb.simps [simp del]

definition write_err_base :: "64 word \<Rightarrow> nat \<Rightarrow> call" where
  "write_err_base val base =
     Direct_write 2 (rev (if digits_lsb (unat val) base = [] then ''0''
                          else digits_lsb (unat val) base))"

definition va_arg :: "64 word list \<Rightarrow> 64 word" where
  "va_arg ap = (case ap of [] \<Rightarrow> 0 | a # _ \<Rightarrow> a)"

text \<open>
  The formatter of \<^verbatim>\<open>unmapped_abort\<close>: the first argument is the text from
  \<^verbatim>\<open>p\<close> on, the second the text between \<^verbatim>\<open>q\<close> and \<^verbatim>\<open>p\<close>. The result is
  the sequence of \<^verbatim>\<open>write_err\<close> calls.
\<close>

fun format_writes :: "string \<Rightarrow> string \<Rightarrow> 64 word list \<Rightarrow> call list" where
  "format_writes [] pending ap = [Direct_write 2 pending]"
| "format_writes (c # cs) pending ap =
     (if c \<noteq> CHR ''%'' then format_writes cs (pending @ [c]) ap
      else Direct_write 2 pending #
        (case cs of
           [] \<Rightarrow> format_writes cs [] ap
         | x # rest \<Rightarrow>
             if x = CHR ''u''
             then write_err_base (ucast (ucast (va_arg ap) :: 32 word)) 10 # format_writes rest [] (tl ap)
             else if x = CHR ''p''
             then write_err_base (va_arg ap) 16 # format_writes rest [] (tl ap)
             else format_writes cs [] ap))"

fun sys_all :: "site \<Rightarrow> call list \<Rightarrow> state \<Rightarrow> state" where
  "sys_all w [] s = s"
| "sys_all w (c # cs) s = sys_all w cs (snd (sys w c s))"

text \<open>
  \<^verbatim>\<open>sys_abort\<close> sends \<^verbatim>\<open>SIGABRT\<close> to the process itself through the raw system
  call; it is a \<^verbatim>\<open>void\<close> function with nothing after the call. The process ends
  inside \<^verbatim>\<open>kill\<close> when the kernel takes the signal (the call replies 0) and the
  signal is fatal to the process. Otherwise \<^verbatim>\<open>kill\<close> comes back, \<^verbatim>\<open>sys_abort\<close>
  returns, and so does \<^verbatim>\<open>unmapped_abort\<close>, whose last statement it is.
\<close>

definition sys_abort :: "state \<Rightarrow> unit outcome" where
  "sys_abort s =
     (let (r, s1) = sys In_unmapped_abort Direct_getpid s;
          (r2, s2) = sys In_unmapped_abort (Direct_kill (rv r) SIGABRT) s1
      in if rv r2 = 0 \<and> sigabrt_fatal s2 then Terminated s2 else Returns () s2)"

definition unmapped_abort :: "string \<Rightarrow> 64 word list \<Rightarrow> state \<Rightarrow> unit outcome" where
  "unmapped_abort fmt ap s = sys_abort (sys_all In_unmapped_abort (format_writes fmt [] ap) s)"

section \<open>Paths and the share directory\<close>

definition fmt_d :: "int \<Rightarrow> string" where
  "fmt_d i =
     (if i = 0 then ''0''
      else if i < 0 then CHR ''-'' # rev (digits_lsb (nat (- i)) 10)
      else rev (digits_lsb (nat i) 10))"

text \<open>
  \<^verbatim>\<open>assemble_path\<close>: the argument is the text \<^verbatim>\<open>vsnprintf\<close> would produce; a path
  longer than \<^verbatim>\<open>PATH_MAX\<close> ends the process through \<^verbatim>\<open>abort()\<close> of the C library,
  which does not return whatever the disposition of \<^verbatim>\<open>SIGABRT\<close> is.
\<close>

definition assemble_path :: "string \<Rightarrow> state \<Rightarrow> string outcome" where
  "assemble_path path s =
     (if length path > PATH_MAX then Terminated (snd (sys In_assemble_path Libc_abort s))
      else Returns path s)"

definition S_ISDIR :: "32 word \<Rightarrow> bool" where
  "S_ISDIR m = (m AND S_IFMT = S_IFDIR)"

text \<open>
  The text of \<^verbatim>\<open>"%s/elflink-uid-%d"\<close> for \<^verbatim>\<open>hugetlbfs_find_path()\<close> and
  \<^verbatim>\<open>getuid()\<close>; glibc prints a null string as (null).
\<close>

definition elflink_uid_path :: "state \<Rightarrow> string" where
  "elflink_uid_path s =
     (case hugetlbfs_find_path s of None \<Rightarrow> ''(null)'' | Some p \<Rightarrow> p)
       @ ''/elflink-uid-'' @ fmt_d (sint (getuid s))"

definition find_or_create_share_path :: "state \<Rightarrow> int outcome" where
  "find_or_create_share_path s =
     (case getenv s ''HUGETLB_SHARE_PATH'' of
        Some env \<Rightarrow>
          (let (r, s1) = sys In_find_or_create_share_path (Hugetlbfs_test_path env) s
           in if rv r \<noteq> 0 then Returns (- 1) s1
              else and_then (assemble_path env s1) (\<lambda>p s2. Returns 0 (s2\<lparr>share_path := p\<rparr>)))
      | None \<Rightarrow>
          and_then (assemble_path (elflink_uid_path s) s)
            (\<lambda>p s1.
               let s2 = s1\<lparr>share_path := p\<rparr>;
                   (r, s3) = sys In_find_or_create_share_path (Mkdir p 448) s2
               in if rv r \<noteq> 0 \<and> errno s3 \<noteq> EEXIST then Returns (- 1) s3
                  else
                    (let (r2, s4) = sys In_find_or_create_share_path (Lstat p) s3
                     in if rv r2 \<noteq> 0 then Returns (- 1) s4
                        else if \<not> S_ISDIR (st_mode r2) then Returns (- 1) s4
                        else if st_uid r2 \<noteq> getuid s4 then Returns (- 1) s4
                        else if st_mode r2 AND (S_IWGRP OR S_IWOTH) \<noteq> 0 then Returns (- 1) s4
                        else Returns 0 s4)))"

definition basename :: "string \<Rightarrow> string" where
  "basename path = rev (takeWhile (\<lambda>c. c \<noteq> CHR ''/'') (rev path))"

definition get_shared_file_name :: "seg_info \<Rightarrow> state \<Rightarrow> (int \<times> string) outcome" where
  "get_shared_file_name htlb_seg_info s =
     (let (r, s1) = sys In_get_shared_file_name (Readlink ''/proc/self/exe'') s
      in if rv r < 0 then Returns (- 1, []) s1
         else and_then
                (assemble_path
                   (share_path s1 @ ''/'' @ basename (take (nat (rv r)) (buf r)) @ ''_'' @ fmt_d 64
                      @ ''_'' @ fmt_d (int (index htlb_seg_info))) s1)
                (\<lambda>p s2. Returns (0, p) s2))"

section \<open>Scanning the program headers\<close>

text \<open>
  One iteration of the loop of \<^verbatim>\<open>parse_elf\<close> per index; \<^verbatim>\<open>continue\<close> goes on
  with the remaining indices, the \<^verbatim>\<open>return\<close> on a full table leaves the loop. The
  fields \<^verbatim>\<open>extra_vaddr\<close>, \<^verbatim>\<open>extrasz\<close> and \<^verbatim>\<open>fd\<close> of the table entry are not
  assigned by the source and keep their value.
\<close>

fun parse_elf_loop :: "elf_image \<Rightarrow> nat list \<Rightarrow> state \<Rightarrow> state option" where
  "parse_elf_loop img [] s = Some s"
| "parse_elf_loop img (i # rest) s =
     (if p_type (phdr img i) \<noteq> PT_LOAD then parse_elf_loop img rest s
      else if p_flags (phdr img i) AND PF_LINUX_HUGETLB = 0 then parse_elf_loop img rest s
      else if htlb_num_segs s \<ge> MAX_HTLB_SEGS then Some (s\<lparr>htlb_num_segs := 0\<rparr>)
      else
        (let fl = p_flags (phdr img i);
             pr = (if fl AND PF_R \<noteq> 0 then PROT_READ else 0)
                  OR (if fl AND PF_W \<noteq> 0 then PROT_WRITE else 0)
                  OR (if fl AND PF_X \<noteq> 0 then PROT_EXEC else 0);
             seg = (htlb_seg_table s ! htlb_num_segs s)
                     \<lparr>vaddr := p_vaddr (phdr img i), filesz := p_filesz (phdr img i),
                      memsz := p_memsz (phdr img i), prot := pr, index := i\<rparr>
         in case get_extracopy img (minimal_copy s) seg (uint (e_phnum img)) of
              None \<Rightarrow> None
            | Some seg' \<Rightarrow>
                parse_elf_loop img rest
                  (s\<lparr>htlb_seg_table := (htlb_seg_table s)[htlb_num_segs s := seg'],
                     htlb_num_segs := Suc (htlb_num_segs s)\<rparr>)))"

definition parse_elf :: "elf_image \<Rightarrow> state \<Rightarrow> state option" where
  "parse_elf img s = parse_elf_loop img [0 ..< unat (e_phnum img)] s"

section \<open>Configuration from the environment\<close>

text \<open>\<^verbatim>\<open>strcasecmp(env, "no") == 0\<close>.\<close>

definition is_no :: "string \<Rightarrow> bool" where
  "is_no env = (env = ''no'' \<or> env = ''No'' \<or> env = ''nO'' \<or> env = ''NO'')"

text \<open>\<^verbatim>\<open>strstr(env, pat) != NULL\<close>.\<close>

fun strstr :: "string \<Rightarrow> string \<Rightarrow> bool" where
  "strstr [] pat = (pat = [])"
| "strstr (c # cs) pat = (take (length pat) (c # cs) = pat \<or> strstr cs pat)"

definition check_env :: "state \<Rightarrow> int \<times> state" where
  "check_env s =
     (if (case getenv s ''HUGETLB_ELFMAP'' of None \<Rightarrow> False | Some env \<Rightarrow> is_no env)
      then (- 1, s)
      else if (case getenv s ''LD_PRELOAD'' of None \<Rightarrow> False | Some env \<Rightarrow> strstr env ''libhugetlbfs'')
      then (- 1, s)
      else
        (let s1 = (if (case getenv s ''HUGETLB_MINIMAL_COPY'' of None \<Rightarrow> False | Some env \<Rightarrow> is_no env)
                   then s\<lparr>minimal_copy := 0\<rparr> else s);
             s2 = (case getenv s ''HUGETLB_SHARE'' of None \<Rightarrow> s1 | Some env \<Rightarrow> s1\<lparr>sharing := atoi s env\<rparr>);
             s3 = (if sharing s2 = 2 then s2\<lparr>sharing := 0\<rparr>
                   else if sharing s2 = 1 then s2 else s2\<lparr>sharing := 0\<rparr>);
             s4 = (case getenv s ''HUGETLB_DEBUG'' of None \<Rightarrow> s3 | Some env \<Rightarrow> s3\<lparr>debug := 1\<rparr>)
         in (0, s4)))"

section \<open>The segment materializer\<close>

definition prepare_size :: "seg_info \<Rightarrow> 64 word \<Rightarrow> 64 word" where
  "prepare_size seg hpage_size =
     (if extra_vaddr seg \<noteq> 0
      then ALIGN (extra_vaddr seg + extrasz seg - vaddr seg) hpage_size
      else ALIGN (filesz seg) hpage_size)"

definition prepare_segment :: "seg_info \<Rightarrow> state \<Rightarrow> int \<times> state" where
  "prepare_segment seg s =
     (let size = prepare_size seg (gethugepagesize s);
          (r, s1) = sys In_prepare_segment
                      (Mmap 0 size (PROT_READ OR PROT_WRITE) MAP_SHARED (fd seg) 0) s;
          p = (word_of_int (rv r) :: 64 word)
      in if p = MAP_FAILED then (- 1, s1)
         else
           (let s2 = snd (sys In_prepare_segment (Memcpy p (vaddr seg) (filesz seg)) s1);
                s3 = (if extra_vaddr seg \<noteq> 0
                      then snd (sys In_prepare_segment
                                  (Memcpy (p + filesz seg + (extra_vaddr seg - (vaddr seg + filesz seg)))
                                     (extra_vaddr seg) (extrasz seg)) s2)
                      else s2);
                s4 = snd (sys In_prepare_segment (Munmap p size) s3)
            in (0, s4)))"

section \<open>The shared-file cache protocol\<close>

text \<open>The code after the label \<^verbatim>\<open>fail\<close> of \<^verbatim>\<open>find_or_prepare_shared_file\<close>.\<close>

definition shared_file_fail :: "int \<Rightarrow> int \<Rightarrow> string \<Rightarrow> seg_info \<Rightarrow> state \<Rightarrow> (int \<times> seg_info) outcome" where
  "shared_file_fail fdx fds tmp_path seg s =
     (let s1 = (if fdx > 0
                then snd (sys In_find_or_prepare_shared_file (Close_fd fdx)
                       (snd (sys In_find_or_prepare_shared_file (Unlink tmp_path) s)))
                else s);
          s2 = (if fds > 0 then snd (sys In_find_or_prepare_shared_file (Close_fd fds) s1) else s1)
      in Returns (- 1, seg) s2)"

text \<open>
  The \<^verbatim>\<open>do ... while (1)\<close> loop. The first argument bounds the number of iterations
  the model follows; when it is used up the process is still waiting for the competing
  preparer.
\<close>

fun shared_file_loop :: "nat \<Rightarrow> seg_info \<Rightarrow> string \<Rightarrow> string \<Rightarrow> state \<Rightarrow> (int \<times> seg_info) outcome" where
  "shared_file_loop 0 seg final_path tmp_path s = Waiting s"
| "shared_file_loop (Suc n) seg final_path tmp_path s =
     (let (rx, s1) = sys In_find_or_prepare_shared_file
                       (Open_file tmp_path (O_CREAT OR O_EXCL OR O_RDWR) 438) s;
          fdx = rv rx;
          (rs, s2) = sys In_find_or_prepare_shared_file (Open_file final_path O_RDONLY 0) s1;
          fds = rv rs
      in if fds \<ge> 0
         then
           (let s3 = (if fdx > 0
                      then snd (sys In_find_or_prepare_shared_file (Close_fd fdx)
                             (snd (sys In_find_or_prepare_shared_file (Unlink tmp_path) s2)))
                      else s2)
            in Returns (0, seg\<lparr>fd := fds\<rparr>) s3)
         else if fdx \<ge> 0
         then
           (let (ret, s3) = prepare_segment (seg\<lparr>fd := fdx\<rparr>) s2
            in if ret < 0 then shared_file_fail fdx fds tmp_path (seg\<lparr>fd := fdx\<rparr>) s3
               else
                 (let (rr, s4) = sys In_find_or_prepare_shared_file (Rename tmp_path final_path) s3
                  in if rv rr \<noteq> 0 then shared_file_fail fdx fds tmp_path (seg\<lparr>fd := fdx\<rparr>) s4
                     else Returns (0, seg\<lparr>fd := fdx\<rparr>) s4))
         else shared_file_loop n seg final_path tmp_path
                (snd (sys In_find_or_prepare_shared_file (Sleep 1) s2)))"

definition find_or_prepare_shared_file :: "nat \<Rightarrow> seg_info \<Rightarrow> state \<Rightarrow> (int \<times> seg_info) outcome" where
  "find_or_prepare_shared_file budget htlb_seg_info s =
     and_then (get_shared_file_name htlb_seg_info s)
       (\<lambda>(ret, final_path) s1.
          if ret < 0 then Returns (- 1, htlb_seg_info) s1
          else and_then (assemble_path (final_path @ ''.tmp'') s1)
                 (\<lambda>tmp_path s2. shared_file_loop budget htlb_seg_info final_path tmp_path s2))"

section \<open>Obtaining a prepared file\<close>

definition unlinked_file :: "seg_info \<Rightarrow> state \<Rightarrow> (int \<times> seg_info) outcome" where
  "unlinked_file seg s =
     (let (r, s1) = sys In_obtain_prepared_file Hugetlbfs_unlinked_fd s
      in if rv r < 0 then Returns (- 1, seg) s1
         else
           (let (ret, s2) = prepare_segment (seg\<lparr>fd := rv r\<rparr>) s1
            in if ret < 0 then Returns (- 1, seg\<lparr>fd := rv r\<rparr>) s2
               else Returns (0, seg\<lparr>fd := rv r\<rparr>) s2))"

definition obtain_prepared_file :: "nat \<Rightarrow> seg_info \<Rightarrow> state \<Rightarrow> (int \<times> seg_info) outcome" where
  "obtain_prepared_file budget htlb_seg_info s =
     (if sharing s \<noteq> 0 \<and> prot htlb_seg_info AND PROT_WRITE = 0
      then and_then (find_or_prepare_shared_file budget htlb_seg_info s)
             (\<lambda>(ret, seg') s1. if ret = 0 then Returns (0, seg') s1 else unlinked_file seg' s1)
      else unlinked_file htlb_seg_info s)"

section \<open>The remap engine\<close>

definition fmt_failed :: string where
  "fmt_failed = ''Failed to map hugepage segment %u: %p-%p (errno=%u)'' @ [CHR 0x0A]"

definition fmt_wrong :: string where
  "fmt_wrong = ''Mapped hugepage segment %u (%p-%p) at wrong address %p'' @ [CHR 0x0A]"

fun unmap_all :: "seg_info list \<Rightarrow> nat list \<Rightarrow> state \<Rightarrow> state" where
  "unmap_all seg [] s = s"
| "unmap_all seg (i # rest) s =
     unmap_all seg rest (snd (sys In_remap_segments (Munmap (vaddr (seg ! i)) (memsz (seg ! i))) s))"

text \<open>
  The loop of Step 4. The two tests after the mapping are two \<^verbatim>\<open>if\<close> statements in
  a row, neither with an \<^verbatim>\<open>else\<close> nor followed by a \<^verbatim>\<open>return\<close>: when
  \<^verbatim>\<open>unmapped_abort\<close> comes back from the first, the second test is made, and after
  it the loop goes on with the next segment.
\<close>

fun remap_all :: "seg_info list \<Rightarrow> nat list \<Rightarrow> state \<Rightarrow> unit outcome" where
  "remap_all seg [] s = Returns () s"
| "remap_all seg (i # rest) s =
     (let mapsize = ALIGN (memsz (seg ! i)) (gethugepagesize s);
          (r, s1) = sys In_remap_segments
                      (Mmap (vaddr (seg ! i)) mapsize (prot (seg ! i)) (MAP_PRIVATE OR MAP_FIXED)
                         (fd (seg ! i)) 0) s;
          p = (word_of_int (rv r) :: 64 word)
      in and_then
           (if p = MAP_FAILED
            then unmapped_abort fmt_failed
                   [of_nat i, vaddr (seg ! i), vaddr (seg ! i) + mapsize, word_of_int (errno s1)] s1
            else Returns () s1)
           (\<lambda>_ s2.
              and_then
                (if p \<noteq> vaddr (seg ! i)
                 then unmapped_abort fmt_wrong
                        [of_nat i, vaddr (seg ! i), vaddr (seg ! i) + mapsize, p] s2
                 else Returns () s2)
                (\<lambda>_ s3. remap_all seg rest s3)))"

definition remap_segments :: "seg_info list \<Rightarrow> nat \<Rightarrow> state \<Rightarrow> unit outcome" where
  "remap_segments seg num s =
     (let s1 = snd (sys In_remap_segments (Mmap 0 0 0 0 0 0) s);
          s2 = unmap_all seg [0 ..< num] s1
      in remap_all seg [0 ..< num] s2)"

section \<open>The bootstrap orchestrator\<close>

text \<open>Step 1 of \<^verbatim>\<open>setup_elflink\<close>: the loop over the selected segments.\<close>

fun obtain_all :: "nat \<Rightarrow> nat list \<Rightarrow> state \<Rightarrow> int outcome" where
  "obtain_all budget [] s = Returns 0 s"
| "obtain_all budget (i # rest) s =
     and_then (obtain_prepared_file budget (htlb_seg_table s ! i) s)
       (\<lambda>(ret, seg') s1.
          if ret < 0 then Returns ret (s1\<lparr>htlb_seg_table := (htlb_seg_table s1)[i := seg']\<rparr>)
          else obtain_all budget rest (s1\<lparr>htlb_seg_table := (htlb_seg_table s1)[i := seg']\<rparr>))"

text \<open>
  \<^verbatim>\<open>setup_elflink\<close> up to the comment "Step 1": configuration, scan and share
  directory. \<open>Returns True\<close> when the constructor goes on to Step 1, \<open>Returns False\<close>
  when it has returned.
\<close>

definition select_segments :: "elf_image \<Rightarrow> state \<Rightarrow> bool outcome" where
  "select_segments img s =
     (if \<not> executable_start img then Returns False s
      else case check_env s of (ret, s1) \<Rightarrow>
        if ret \<noteq> 0 then Returns False s1
        else case parse_elf img s1 of
          None \<Rightarrow> Undefined s1
        | Some s2 \<Rightarrow>
            if htlb_num_segs s2 = 0 then Returns False s2
            else if sharing s2 \<noteq> 0
            then and_then (find_or_create_share_path s2) (\<lambda>ret s3. Returns (ret = 0) s3)
            else Returns True s2)"

text \<open>\<^verbatim>\<open>setup_elflink\<close>: the part above, then Step 1 and Step 3.\<close>

definition setup_elflink :: "nat \<Rightarrow> elf_image \<Rightarrow> state \<Rightarrow> unit outcome" where
  "setup_elflink budget img s =
     and_then (select_segments img s)
       (\<lambda>go s3.
          if \<not> go then Returns () s3
          else and_then (obtain_all budget [0 ..< htlb_num_segs s3] s3)
                 (\<lambda>ret s4.
                    if ret < 0 then Returns () s4
                    else remap_segments (htlb_seg_table s4) (htlb_num_segs s4) s4))"

text \<open>
  The state of the process when the constructor starts: the static variables of
  elflink.c with their initialisers, an empty trace.
\<close>

definition zero_seg :: seg_info where
  "zero_seg = \<lparr>vaddr = 0, extra_vaddr = 0, filesz = 0, memsz = 0, extrasz = 0, prot = 0, fd = 0, index = 0\<rparr>"

definition boot :: "state \<Rightarrow> state" where
  "boot s = s\<lparr>trace := [], share_path := [],
              htlb_seg_table := [zero_seg, zero_seg], htlb_num_segs := 0,
              minimal_copy := 1, sharing := 0, debug := 0\<rparr>"

section \<open>Notions of the specification\<close>

text \<open>
  The symbols the specification wants copied, in its own words: the value lies within
  the zero-fill tail \<open>[vaddr + filesz, vaddr + memsz)\<close>, the binding is global or weak,
  the type is object and the size is not zero. \<open>sym_end\<close> is the end of the byte
  range \<open>[st_value, st_value + st_size)\<close> of a symbol.
\<close>

definition data_object :: "Elf_Sym \<Rightarrow> bool" where
  "data_object s =
     ((ELF_ST_BIND (st_info s) = STB_GLOBAL \<or> ELF_ST_BIND (st_info s) = STB_WEAK)
      \<and> ELF_ST_TYPE (st_info s) = STT_OBJECT \<and> st_size s \<noteq> 0)"

definition in_tail_object :: "seg_info \<Rightarrow> Elf_Sym \<Rightarrow> bool" where
  "in_tail_object seg s =
     (vaddr seg + filesz seg \<le> st_value s \<and> st_value s < vaddr seg + memsz seg \<and> data_object s)"

definition sym_end :: "Elf_Sym \<Rightarrow> 64 word" where
  "sym_end s = st_value s + st_size s"

text \<open>The events of a run from state \<open>s\<close> on.\<close>

definition new_events :: "state \<Rightarrow> state \<Rightarrow> (site \<times> call \<times> reply) list" where
  "new_events s s' = drop (length (trace s)) (trace s')"

text \<open>
  The events of the remap engine: the calls of \<^verbatim>\<open>remap_segments\<close> and of the abort
  path it falls into. The temporary mapping that \<^verbatim>\<open>prepare_segment\<close> creates and
  removes is not among them.
\<close>

definition remap_event :: "site \<times> call \<times> reply \<Rightarrow> bool" where
  "remap_event e = (fst e = In_remap_segments \<or> fst e = In_unmapped_abort)"

text \<open>All events from \<open>s\<close> to \<open>s'\<close> were issued by functions of the set \<open>W\<close>.\<close>

definition sites_only :: "site set \<Rightarrow> state \<Rightarrow> state \<Rightarrow> bool" where
  "sites_only W s s' = (\<exists>evs. trace s' = trace s @ evs \<and> list_all (\<lambda>e. fst e \<in> W) evs)"

text \<open>
  A fixed-address huge-page mapping of \<^verbatim>\<open>remap_segments\<close> that failed or came back at
  another address than the one asked for.
\<close>

fun failed_remap :: "site \<times> call \<times> reply \<Rightarrow> bool" where
  "failed_remap (w, Mmap a len pr fl d off, r) =
     (w = In_remap_segments \<and> fl = MAP_PRIVATE OR MAP_FIXED
      \<and> (word_of_int (rv r) = MAP_FAILED \<or> (word_of_int (rv r) :: 64 word) \<noteq> a))"
| "failed_remap (w, c, r) = False"

text \<open>
  The abort path as a sequence of events: raw writes to the standard error stream, then
  the raw \<^verbatim>\<open>getpid\<close> and the raw \<^verbatim>\<open>kill\<close> of the process itself with
  \<^verbatim>\<open>SIGABRT\<close>, and nothing after it. (The argument of \<open>abort_path_rev\<close> is the
  sequence in reverse, last event first.)
\<close>

fun is_stderr_write :: "site \<times> call \<times> reply \<Rightarrow> bool" where
  "is_stderr_write (w, Direct_write d txt, r) = (w = In_unmapped_abort \<and> d = 2)"
| "is_stderr_write (w, c, r) = False"

fun abort_path_rev :: "(site \<times> call \<times> reply) list \<Rightarrow> bool" where
  "abort_path_rev ((w2, Direct_kill pid sg, r2) # (w1, Direct_getpid, r1) # writes) =
     (w1 = In_unmapped_abort \<and> w2 = In_unmapped_abort \<and> pid = rv r1 \<and> sg = SIGABRT
      \<and> writes \<noteq> [] \<and> list_all is_stderr_write writes)"
| "abort_path_rev evs = False"

definition abort_path :: "(site \<times> call \<times> reply) list \<Rightarrow> bool" where
  "abort_path evs = abort_path_rev (rev evs)"

text \<open>
  The kernel took every \<^verbatim>\<open>kill\<close> of a sequence of events: the call replied 0.
\<close>

fun kill_delivered :: "site \<times> call \<times> reply \<Rightarrow> bool" where
  "kill_delivered (w, Direct_kill pid sg, r) = (rv r = 0)"
| "kill_delivered (w, c, r) = True"

text \<open>
  The validation C9 speaks of, in its words: the run from \<open>s\<close> to \<open>s'\<close> has tested
  the share directory to be on the huge-page file system, and has seen it owned by the
  current user and not writable by group or others.
\<close>

definition share_dir_validated :: "state \<Rightarrow> state \<Rightarrow> bool" where
  "share_dir_validated s s' =
     ((\<exists>r. (In_find_or_create_share_path, Hugetlbfs_test_path (share_path s'), r) \<in> set (new_events s s')
           \<and> rv r = 0)
      \<and> (\<exists>r. (In_find_or_create_share_path, Lstat (share_path s'), r) \<in> set (new_events s s')
           \<and> rv r = 0 \<and> st_uid r = getuid s \<and> st_mode r AND (S_IWGRP OR S_IWOTH) = 0))"

text \<open>
  A program header the scanner selects: a \<^verbatim>\<open>PT_LOAD\<close> segment with the huge-page flag.
\<close>

definition marked_for_hugepages :: "elf_image \<Rightarrow> nat \<Rightarrow> bool" where
  "marked_for_hugepages img i =
     (p_type (phdr img i) = PT_LOAD \<and> p_flags (phdr img i) AND PF_LINUX_HUGETLB \<noteq> 0)"

text \<open>
  The dynamic section, when there is one, has its \<^verbatim>\<open>DT_NULL\<close> entry at an index from
  1 on within the range of a C int.
\<close>

definition dynamic_terminated :: "elf_image \<Rightarrow> bool" where
  "dynamic_terminated img =
     (case fst (find_dynamic (phdr img) (uint (e_phnum img))) of
        None \<Rightarrow> True
      | Some dyntab \<Rightarrow>
          (\<exists>k. 1 \<le> k \<and> k \<le> INT_MAX \<and> d_tag (dyn_at img (dyntab + 16 * of_nat k)) = DT_NULL))"

text \<open>
  The functions that select and prepare segments: every call they make is tagged with
  one of these sites. The remap engine and the abort path are not among them.
\<close>

definition preparation_sites :: "site set" where
  "preparation_sites =
     {In_assemble_path, In_find_or_create_share_path, In_get_shared_file_name, In_prepare_segment,
      In_find_or_prepare_shared_file, In_obtain_prepared_file}"

text \<open>
  \<open>prepared_through budget s0 i s\<close>: started in \<open>s0\<close>, the loop of Step 1 has gone
  through the segments \<open>0, \<dots>, i - 1\<close> in order, \<^verbatim>\<open>obtain_prepared_file\<close> returned 0 for
  each of them and stored its descriptor in the table, and the process is now in \<open>s\<close>.
\<close>

inductive prepared_through :: "nat \<Rightarrow> state \<Rightarrow> nat \<Rightarrow> state \<Rightarrow> bool" for budget s0 where
  none_yet: "prepared_through budget s0 0 s0"
| one_more:
    "prepared_through budget s0 i s \<Longrightarrow>
     obtain_prepared_file budget (htlb_seg_table s ! i) s = Returns (0, seg') s1 \<Longrightarrow>
     prepared_through budget s0 (Suc i) (s1\<lparr>htlb_seg_table := (htlb_seg_table s1)[i := seg']\<rparr>)"

section \<open>Example inputs\<close>

text \<open>
  A small image: a read-only text segment and a data segment with a zero-fill tail
  \<open>[0x603000, 0x605000)\<close>, both marked for huge pages, and a dynamic segment between
  them. The dynamic section at \<open>0x602000\<close> names the symbol table at \<open>0x400200\<close> and a
  string table at the address given; the first symbol is \<open>[0x603100, 0x603180)\<close> with
  the \<^verbatim>\<open>st_info\<close> given, the second one is a function.
\<close>

definition ex_phdr :: "nat \<Rightarrow> Elf_Phdr" where
  "ex_phdr i =
     (if i = 0 then \<lparr>p_type = PT_LOAD, p_flags = PF_R OR PF_X OR PF_LINUX_HUGETLB,
                      p_vaddr = 0x400000, p_filesz = 0x2000, p_memsz = 0x2000\<rparr>
      else if i = 1 then \<lparr>p_type = PT_DYNAMIC, p_flags = PF_R OR PF_W,
                           p_vaddr = 0x602000, p_filesz = 0x40, p_memsz = 0x40\<rparr>
      else if i = 2 then \<lparr>p_type = PT_LOAD, p_flags = PF_R OR PF_W OR PF_LINUX_HUGETLB,
                           p_vaddr = 0x600000, p_filesz = 0x3000, p_memsz = 0x5000\<rparr>
      else \<lparr>p_type = 0, p_flags = 0, p_vaddr = 0, p_filesz = 0, p_memsz = 0\<rparr>)"

definition ex_dyn :: "64 word \<Rightarrow> 64 word \<Rightarrow> Elf_Dyn" where
  "ex_dyn strtab a =
     (if a = 0x602000 then \<lparr>d_tag = 1, d_ptr = 1\<rparr>
      else if a = 0x602010 then \<lparr>d_tag = DT_SYMTAB, d_ptr = 0x400200\<rparr>
      else if a = 0x602020 then \<lparr>d_tag = DT_STRTAB, d_ptr = strtab\<rparr>
      else \<lparr>d_tag = DT_NULL, d_ptr = 0\<rparr>)"

definition ex_sym1 :: "8 word \<Rightarrow> Elf_Sym" where
  "ex_sym1 info = \<lparr>st_info = info, st_value = 0x603100, st_size = 0x80\<rparr>"

definition ex_sym2 :: Elf_Sym where
  "ex_sym2 = \<lparr>st_info = 0x12, st_value = 0x603800, st_size = 0x10\<rparr>"

definition ex_sym :: "8 word \<Rightarrow> 64 word \<Rightarrow> Elf_Sym" where
  "ex_sym info a =
     (if a = 0x400200 then ex_sym1 info
      else if a = 0x400218 then ex_sym2
      else \<lparr>st_info = 0, st_value = 0, st_size = 0\<rparr>)"

definition ex_img :: "8 word \<Rightarrow> 64 word \<Rightarrow> 64 word \<Rightarrow> elf_image" where
  "ex_img info strtab sentinel =
     \<lparr>executable_start = True, e_phnum = 3, phdr = ex_phdr, dyn_at = ex_dyn strtab,
      sym_at = ex_sym info, libhuge_filesz = sentinel\<rparr>"

text \<open>The descriptor of the data segment as \<^verbatim>\<open>parse_elf\<close> fills it in.\<close>

definition ex_seg :: seg_info where
  "ex_seg = \<lparr>vaddr = 0x600000, extra_vaddr = 0, filesz = 0x3000, memsz = 0x5000, extrasz = 0,
             prot = PROT_READ OR PROT_WRITE, fd = 0, index = 2\<rparr>"

text \<open>A table of two \<^verbatim>\<open>PT_LOAD\<close> headers and no \<^verbatim>\<open>PT_DYNAMIC\<close> one.\<close>

definition nodyn_phdr :: "nat \<Rightarrow> Elf_Phdr" where
  "nodyn_phdr i =
     (if i < 2 then \<lparr>p_type = PT_LOAD, p_flags = PF_R, p_vaddr = 0x400000,
                      p_filesz = 0x1000, p_memsz = 0x1000\<rparr>
      else \<lparr>p_type = 0, p_flags = 0, p_vaddr = 0, p_filesz = 0, p_memsz = 0\<rparr>)"

text \<open>
  A process state for the examples: a 2 MB huge page size, user 1000, the huge-page file
  system mounted at /mnt/huge, and the replies of the operating system as given.
\<close>

definition reply_of :: "int \<Rightarrow> int \<Rightarrow> reply" where
  "reply_of v e = \<lparr>rv = v, rerrno = e, st_mode = 0, st_uid = 0, buf = []\<rparr>"

definition ex_state :: "(string \<Rightarrow> string option) \<Rightarrow> (nat \<Rightarrow> reply) \<Rightarrow> state" where
  "ex_state env replies =
     \<lparr>getenv = env, reply_at = replies, getuid = 1000, gethugepagesize = 0x200000,
      hugetlbfs_find_path = Some ''/mnt/huge'', atoi = (\<lambda>a. if a = ''1'' then 1 else 0),
      sigabrt_fatal = True, trace = [], errno = 0, share_path = [],
      htlb_seg_table = [zero_seg, zero_seg], htlb_num_segs = 0,
      minimal_copy = 1, sharing = 0, debug = 0\<rparr>"

text \<open>Two prepared descriptors: a text segment and the data segment with its copy window.\<close>

definition ex_segs :: "seg_info list" where
  "ex_segs =
     [\<lparr>vaddr = 0x400000, extra_vaddr = 0, filesz = 0x2000, memsz = 0x2000, extrasz = 0,
       prot = PROT_READ OR PROT_EXEC, fd = 3, index = 0\<rparr>,
      \<lparr>vaddr = 0x600000, extra_vaddr = 0x603100, filesz = 0x3000, memsz = 0x5000, extrasz = 0x80,
       prot = PROT_READ OR PROT_WRITE, fd = 4, index = 2\<rparr>]"

text \<open>
  Replies for a run of \<^verbatim>\<open>remap_segments\<close> in which the first segment is mapped where
  it was and the second one comes back at another address.
\<close>

definition wrong_address_replies :: "nat \<Rightarrow> reply" where
  "wrong_address_replies n =
     (if n = 0 then reply_of (- 1) 22
      else if n = 3 then reply_of 0x400000 0
      else if n = 4 then reply_of 0x7f0000000000 0
      else if n = 14 then reply_of 4242 0
      else reply_of 0 0)"

text \<open>A reply sequence whose first call (the temporary mapping) succeeds.\<close>

definition mapping_succeeds_replies :: "nat \<Rightarrow> reply" where
  "mapping_succeeds_replies n = (if n = 0 then reply_of 0x7f0000000000 0 else reply_of 0 0)"

text \<open>
  A state in which sharing is on and the share directory is set, and replies for a run of
  \<^verbatim>\<open>find_or_prepare_shared_file\<close> in which the exclusive open of the temporary file
  returns descriptor 0 (the process was started with its standard input closed), the
  final file does not exist and the temporary mapping fails.
\<close>

definition shared_state :: "(nat \<Rightarrow> reply) \<Rightarrow> state" where
  "shared_state replies =
     (ex_state (\<lambda>name. if name = ''HUGETLB_SHARE'' then Some ''1'' else None) replies)
       \<lparr>share_path := ''/mnt/huge/elflink-uid-1000'', sharing := 1\<rparr>"

definition preparer_fd0_replies :: "nat \<Rightarrow> reply" where
  "preparer_fd0_replies n =
     (if n = 0 then \<lparr>rv = 13, rerrno = 0, st_mode = 0, st_uid = 0, buf = ''/usr/bin/prog''\<rparr>
      else if n = 1 then reply_of 0 0
      else if n = 2 then reply_of (- 1) ENOENT
      else reply_of (- 1) 12)"


text \<open>
  Environments with and without an explicit share path, and replies for the default
  path: \<^verbatim>\<open>mkdir\<close> finds the directory there, \<^verbatim>\<open>lstat\<close> reports a directory of
  mode 0700 owned by the user, or one of mode 0777 owned by root.
\<close>

definition override_env :: "string \<Rightarrow> string option" where
  "override_env name =
     (if name = ''HUGETLB_SHARE_PATH'' then Some ''/mnt/huge/shared''
      else if name = ''HUGETLB_SHARE'' then Some ''1'' else None)"

definition share_env :: "string \<Rightarrow> string option" where
  "share_env name = (if name = ''HUGETLB_SHARE'' then Some ''1'' else None)"

definition good_dir_replies :: "nat \<Rightarrow> reply" where
  "good_dir_replies n =
     (if n = 0 then reply_of (- 1) EEXIST
      else if n = 1 then \<lparr>rv = 0, rerrno = 0, st_mode = 0x41C0, st_uid = 1000, buf = []\<rparr>
      else reply_of 0 0)"

definition foreign_dir_replies :: "nat \<Rightarrow> reply" where
  "foreign_dir_replies n =
     (if n = 0 then reply_of (- 1) EEXIST
      else if n = 1 then \<lparr>rv = 0, rerrno = 0, st_mode = 0x41FF, st_uid = 0, buf = []\<rparr>
      else reply_of 0 0)"

text \<open>
  Replies for a run with an explicit share path: the path is on the huge-page file
  system, and any \<^verbatim>\<open>lstat\<close> would report a directory of mode 0777 owned by root.
\<close>

definition override_replies :: "nat \<Rightarrow> reply" where
  "override_replies n =
     (if n = 0 then reply_of 0 0
      else \<lparr>rv = 0, rerrno = 0, st_mode = 0x41FF, st_uid = 0, buf = []\<rparr>)"

text \<open>The descriptor of the text segment as \<^verbatim>\<open>parse_elf\<close> fills it in.\<close>

definition ex_text_seg :: seg_info where
  "ex_text_seg = \<lparr>vaddr = 0x400000, extra_vaddr = 0, filesz = 0x2000, memsz = 0x2000, extrasz = 0,
                  prot = PROT_READ OR PROT_EXEC, fd = 0, index = 0\<rparr>"

text \<open>
  The example image with a third segment marked for huge pages, and replies for a run
  that makes no call that matters.
\<close>

definition crowded_phdr :: "nat \<Rightarrow> Elf_Phdr" where
  "crowded_phdr i =
     (if i = 3 then \<lparr>p_type = PT_LOAD, p_flags = PF_R OR PF_LINUX_HUGETLB,
                      p_vaddr = 0x800000, p_filesz = 0x1000, p_memsz = 0x1000\<rparr>
      else ex_phdr i)"

definition crowded_img :: elf_image where
  "crowded_img = (ex_img 0x11 0x400230 0)\<lparr>e_phnum := 4, phdr := crowded_phdr\<rparr>"

definition quiet_replies :: "nat \<Rightarrow> reply" where
  "quiet_replies n = reply_of 0 0"

text \<open>
  Replies for a run of the constructor on the example image without sharing in which
  both segments get a descriptor (3 and 4), are populated through a temporary mapping,
  and are then mapped at their own addresses; and replies for a run in which
  \<^verbatim>\<open>hugetlbfs_unlinked_fd\<close> fails for the second segment.
\<close>

definition full_run_replies :: "nat \<Rightarrow> reply" where
  "full_run_replies n =
     (if n = 0 then reply_of 3 0
      else if n = 4 then reply_of 4 0
      else if n = 1 \<or> n = 5 then reply_of 0x7f0000000000 0
      else if n = 9 then reply_of (- 1) 22
      else if n = 12 then reply_of 0x400000 0
      else if n = 13 then reply_of 0x600000 0
      else reply_of 0 0)"

definition second_fails_replies :: "nat \<Rightarrow> reply" where
  "second_fails_replies n =
     (if n = 0 then reply_of 3 0
      else if n = 1 then reply_of 0x7f0000000000 0
      else if n = 4 then reply_of (- 1) 24
      else reply_of 0 0)"

text \<open>
  A process started with \<^verbatim>\<open>SIGABRT\<close> ignored, as a child of a shell after
  \<^verbatim>\<open>trap '' ABRT\<close> is: the signal does not end it. In the replies the huge-page mapping
  of the first segment fails with \<^verbatim>\<open>ENOMEM\<close>, and every later call replies 0.
\<close>

definition first_mapping_fails_replies :: "nat \<Rightarrow> reply" where
  "first_mapping_fails_replies n =
     (if n = 0 then reply_of (- 1) 22
      else if n = 3 then reply_of (- 1) 12
      else reply_of 0 0)"

definition sigabrt_ignored_state :: state where
  "sigabrt_ignored_state = (ex_state Map.empty first_mapping_fails_replies)\<lparr>sigabrt_fatal := False\<rparr>"

section \<open>Facts about the scanner\<close>

lemmas elf_consts =
  PT_LOAD_def PT_DYNAMIC_def DT_NULL_def DT_SYMTAB_def DT_STRTAB_def STB_GLOBAL_def STB_WEAK_def
  STT_OBJECT_def ELF_ST_BIND_def ELF_ST_TYPE_def PF_R_def PF_W_def PF_X_def PF_LINUX_HUGETLB_def
  PROT_READ_def PROT_WRITE_def PROT_EXEC_def INT_MAX_def MAX_HTLB_SEGS_def

lemma upt_0_2: "[0 ..< 2] = [0, 1]"
  by (simp add: numeral_2_eq_2)

lemma upt_0_3: "[0 ..< 3] = [0, 1, 2]"
  by (simp add: numeral_3_eq_3 numeral_2_eq_2)

lemma find_tables_ret:
  "find_tables mem dyntab = Some (ret, symtab, strtab) \<Longrightarrow>
     ret = (if symtab = 0 \<or> strtab = 0 then - 1 else 0)"
  by (auto simp: find_tables_def split: option.splits if_splits)

lemma whole_tail_eq:
  "whole_tail seg = seg\<lparr>extra_vaddr := vaddr seg + filesz seg, extrasz := memsz seg - filesz seg\<rparr>"
  by (simp add: whole_tail_def)

lemma keep_symbol_iff:
  "keep_symbol s a b \<noteq> 0 \<longleftrightarrow> a \<le> st_value s \<and> st_value s \<le> b \<and> data_object s"
  by (auto simp: keep_symbol_def data_object_def)

text \<open>The loop over the symbols computes a running minimum and maximum over the kept ones.\<close>

lemma scan_symbols_fold:
  "scan_symbols syms a b (f, st, en) =
     (f \<or> filter (\<lambda>s. keep_symbol s a b \<noteq> 0) syms \<noteq> [],
      fold min (map st_value (filter (\<lambda>s. keep_symbol s a b \<noteq> 0) syms)) st,
      fold max (map sym_end (filter (\<lambda>s. keep_symbol s a b \<noteq> 0) syms)) en)"
proof (induction syms arbitrary: f st en)
  case Nil
  show ?case by simp
next
  case (Cons s syms)
  show ?case
  proof (cases "keep_symbol s a b = 0")
    case True
    then show ?thesis using Cons.IH [of f st en] by simp
  next
    case False
    have m1: "(if st_value s < st then st_value s else st) = min (st_value s) st"
      by (auto simp: min_def)
    have m2: "(if st_value s + st_size s > en then st_value s + st_size s else en)
                = max (sym_end s) en"
      by (auto simp: max_def sym_end_def)
    from False show ?thesis
      using Cons.IH [of True "min (st_value s) st" "max (sym_end s) en"]
      by (simp add: m1 m2)
  qed
qed

lemma fold_min_Min:
  fixes xs :: "64 word list"
  assumes "xs \<noteq> []" and "\<forall>x\<in>set xs. x \<le> a"
  shows "fold min xs a = Min (set xs)"
proof -
  have "fold min xs a = Min (set (a # xs))" by (simp only: Min.set_eq_fold)
  also have "\<dots> = min a (Min (set xs))" using assms(1) by simp
  also have "\<dots> = Min (set xs)"
  proof -
    have "Min (set xs) \<in> set xs" using assms(1) by (intro Min_in) auto
    with assms(2) have "Min (set xs) \<le> a" by blast
    then show ?thesis by (simp add: min_def)
  qed
  finally show ?thesis .
qed

lemma fold_max_Max:
  fixes xs :: "64 word list"
  assumes "xs \<noteq> []" and "\<forall>x\<in>set xs. a \<le> x"
  shows "fold max xs a = Max (set xs)"
proof -
  have "fold max xs a = Max (set (a # xs))" by (simp only: Max.set_eq_fold)
  also have "\<dots> = max a (Max (set xs))" using assms(1) by simp
  also have "\<dots> = Max (set xs)"
  proof -
    have "Max (set xs) \<in> set xs" using assms(1) by (intro Max_in) auto
    with assms(2) have "a \<le> Max (set xs)" by blast
    then show ?thesis by (simp add: max_def)
  qed
  finally show ?thesis .
qed

text \<open>The example image, evaluated.\<close>

lemma ex_find_dynamic: "find_dynamic ex_phdr 3 = (Some 0x602000, [1, 1])"
  by (simp add: find_dynamic_def find_dynamic_loop.simps ex_phdr_def elf_consts)

lemma ex_find_tables:
  "find_tables (ex_dyn strtab) 0x602000 = Some (if strtab = 0 then - 1 else 0, 0x400200, strtab)"
  by (simp add: find_tables_def find_tables_loop.simps ex_dyn_def elf_consts)

lemma ex_symtab2: "symbol_table (ex_sym info) 0x400200 2 = [ex_sym1 info, ex_sym2]"
  by (simp add: symbol_table_def ex_sym_def upt_0_2)

lemma ex_symtab0: "symbol_table (ex_sym info) 0x400200 0 = []"
  by (simp add: symbol_table_def)

lemma ex_keep1: "keep_symbol (ex_sym1 0x11) 0x603000 0x605000 = 1"
  by (simp add: keep_symbol_def ex_sym1_def elf_consts)

lemma ex_keep1_function: "keep_symbol (ex_sym1 0x12) 0x603000 0x605000 = 0"
  by (simp add: keep_symbol_def ex_sym1_def elf_consts)

lemma ex_keep2: "keep_symbol ex_sym2 0x603000 0x605000 = 0"
  by (simp add: keep_symbol_def ex_sym2_def elf_consts)

lemma ex_in_tail1: "in_tail_object ex_seg (ex_sym1 0x11)"
  by (simp add: in_tail_object_def data_object_def ex_seg_def ex_sym1_def elf_consts)

lemma ex_in_tail2: "\<not> in_tail_object ex_seg ex_sym2"
  by (simp add: in_tail_object_def data_object_def ex_seg_def ex_sym2_def elf_consts)

lemma ex_window_with_sentinel:
  "get_extracopy (ex_img 0x11 0x400230 0x604000) 1 ex_seg 3
     = Some (ex_seg\<lparr>extra_vaddr := 0x603100, extrasz := 0xF00\<rparr>)"
  by (simp add: get_extracopy_def ex_find_dynamic ex_find_tables ex_symtab2 ex_img_def
        find_numsyms_def ex_seg_def ex_keep1 ex_keep2 apply_sentinel_def)
     (simp add: ex_sym1_def)

text \<open>
  When the tables are found and no symbol of the table is kept, \<^verbatim>\<open>found_sym\<close> stays 0
  and the descriptor is left as it was, wherever the sentinel lies.
\<close>

lemma get_extracopy_without_kept_symbols:
  assumes tail: "filesz seg < memsz seg"
    and minimal: "minimal \<noteq> 0"
    and dyn: "fst (find_dynamic (phdr img) phnum) = Some dyntab"
    and tabs: "find_tables (dyn_at img) dyntab = Some (0, symtab, strtab)"
    and num: "0 \<le> find_numsyms symtab strtab"
    and none: "filter (\<lambda>s. keep_symbol s (vaddr seg + filesz seg) (vaddr seg + memsz seg) \<noteq> 0)
                 (symbol_table (sym_at img) symtab (find_numsyms symtab strtab)) = []"
  shows "get_extracopy img minimal seg phnum = Some seg"
proof -
  from tail have ne: "filesz seg \<noteq> memsz seg" by auto
  from num have nn: "\<not> find_numsyms symtab strtab < 0" by simp
  have sc: "fst (scan_symbols (symbol_table (sym_at img) symtab (find_numsyms symtab strtab))
                  (vaddr seg + filesz seg) (vaddr seg + memsz seg)
                  (False, vaddr seg + memsz seg, vaddr seg + filesz seg)) = False"
    by (simp add: scan_symbols_fold none)
  show ?thesis
    using ne minimal dyn tabs nn sc
    by (simp add: get_extracopy_def Let_def split_def)
qed

section \<open>Claims about the scanner\<close>

text \<open>
  C10 (the search for \<^verbatim>\<open>PT_DYNAMIC\<close> reads only indices below \<open>phnum\<close>): the
  code does not do that. On a table of two entries without a \<^verbatim>\<open>PT_DYNAMIC\<close>
  header the loop condition reads \<^verbatim>\<open>phdr[2]\<close> before it compares the index with
  \<open>phnum\<close>, and the test after the loop reads it again.
\<close>

theorem find_dynamic_reads_entry_phnum:
  "find_dynamic nodyn_phdr 2 = (None, [1, 2, 2]) \<and> 2 \<in> set (snd (find_dynamic nodyn_phdr 2))"
  by (simp add: find_dynamic_def find_dynamic_loop.simps nodyn_phdr_def elf_consts)

text \<open>
  The same for every table without a \<^verbatim>\<open>PT_DYNAMIC\<close> header at the indices
  \<open>1 .. phnum - 1\<close>: the entry at index \<open>phnum\<close> is read.
\<close>

lemma find_dynamic_loop_no_dynamic:
  "int i \<le> phnum \<Longrightarrow> (\<forall>j. i \<le> j \<and> int j < phnum \<longrightarrow> p_type (ph j) \<noteq> PT_DYNAMIC) \<Longrightarrow>
     find_dynamic_loop ph phnum i reads = (nat phnum, reads @ [i ..< Suc (nat phnum)])"
proof (induction ph phnum i reads rule: find_dynamic_loop.induct)
  case (1 ph phnum i reads)
  show ?case
  proof (cases "int i < phnum")
    case True
    with "1.prems" have ne: "p_type (ph i) \<noteq> PT_DYNAMIC" by auto
    have p1: "int (Suc i) \<le> phnum" using True by simp
    have p2: "\<forall>j. Suc i \<le> j \<and> int j < phnum \<longrightarrow> p_type (ph j) \<noteq> PT_DYNAMIC"
      using "1.prems"(2) by auto
    have "find_dynamic_loop ph phnum (Suc i) (reads @ [i])
            = (nat phnum, (reads @ [i]) @ [Suc i ..< Suc (nat phnum)])"
      using ne True by (intro "1.IH" p1 p2) simp
    moreover have "i < Suc (nat phnum)" using True by linarith
    then have "[i ..< Suc (nat phnum)] = i # [Suc i ..< Suc (nat phnum)]"
      by (rule upt_conv_Cons)
    ultimately show ?thesis
      using ne True by (subst find_dynamic_loop.simps) simp
  next
    case False
    with "1.prems" have "int i = phnum" by simp
    then have "nat phnum = i" by simp
    then show ?thesis
      using False by (subst find_dynamic_loop.simps) simp
  qed
qed

lemma find_dynamic_reads_past_table:
  assumes "1 \<le> phnum" and "\<forall>j. 1 \<le> j \<and> int j < phnum \<longrightarrow> p_type (ph j) \<noteq> PT_DYNAMIC"
  shows "nat phnum \<in> set (snd (find_dynamic ph phnum))"
proof -
  have "find_dynamic_loop ph phnum 1 [] = (nat phnum, [] @ [1 ..< Suc (nat phnum)])"
  proof (rule find_dynamic_loop_no_dynamic)
    show "int 1 \<le> phnum" using assms(1) by simp
    show "\<forall>j. 1 \<le> j \<and> int j < phnum \<longrightarrow> p_type (ph j) \<noteq> PT_DYNAMIC"
      using assms(2) by simp
  qed
  then show ?thesis by (simp add: find_dynamic_def)
qed

text \<open>
  C5, as amended: for a segment with a zero-fill tail and minimal copy enabled, when the
  dynamic program header is not found, or the symbol table or the string table pointer
  is not found (null), or the entry count \<^verbatim>\<open>find_numsyms\<close> returns is negative,
  \<^verbatim>\<open>get_extracopy\<close> sets the copy window to the whole zero-fill tail. An entry count
  of zero is not such a case: the scan runs over no symbols, and when the sentinel
  \<^verbatim>\<open>__libhuge_filesz\<close> does not lie beyond the start of the zero-fill tail the
  descriptor is left as it was, without a window.
\<close>

theorem get_extracopy_falls_back_to_whole_tail:
  assumes tail: "filesz seg < memsz seg"
    and minimal: "minimal \<noteq> 0"
  shows "(fst (find_dynamic (phdr img) phnum) = None
          \<or> (\<exists>dyntab ret symtab strtab.
                fst (find_dynamic (phdr img) phnum) = Some dyntab
              \<and> find_tables (dyn_at img) dyntab = Some (ret, symtab, strtab)
              \<and> (symtab = 0 \<or> strtab = 0 \<or> find_numsyms symtab strtab < 0))
          \<longrightarrow> get_extracopy img minimal seg phnum
                = Some (seg\<lparr>extra_vaddr := vaddr seg + filesz seg, extrasz := memsz seg - filesz seg\<rparr>))
       \<and> (fst (find_dynamic (phdr img) phnum) = Some dyntab
          \<and> find_tables (dyn_at img) dyntab = Some (ret, symtab, strtab)
          \<and> symtab \<noteq> 0 \<and> strtab \<noteq> 0 \<and> find_numsyms symtab strtab = 0
          \<and> libhuge_filesz img \<le> vaddr seg + filesz seg
          \<longrightarrow> get_extracopy img minimal seg phnum = Some seg)"
proof (intro conjI impI)
  assume unlocated: "fst (find_dynamic (phdr img) phnum) = None
          \<or> (\<exists>dyntab ret symtab strtab.
                fst (find_dynamic (phdr img) phnum) = Some dyntab
              \<and> find_tables (dyn_at img) dyntab = Some (ret, symtab, strtab)
              \<and> (symtab = 0 \<or> strtab = 0 \<or> find_numsyms symtab strtab < 0))"
  from tail have ne: "filesz seg \<noteq> memsz seg" by auto
  from unlocated show "get_extracopy img minimal seg phnum
                = Some (seg\<lparr>extra_vaddr := vaddr seg + filesz seg, extrasz := memsz seg - filesz seg\<rparr>)"
  proof
    assume "fst (find_dynamic (phdr img) phnum) = None"
    with ne minimal show ?thesis
      by (simp add: get_extracopy_def whole_tail_eq)
  next
    assume "\<exists>dyntab ret symtab strtab.
             fst (find_dynamic (phdr img) phnum) = Some dyntab
           \<and> find_tables (dyn_at img) dyntab = Some (ret, symtab, strtab)
           \<and> (symtab = 0 \<or> strtab = 0 \<or> find_numsyms symtab strtab < 0)"
    then obtain dyntab ret symtab strtab where
      d: "fst (find_dynamic (phdr img) phnum) = Some dyntab" and
      t: "find_tables (dyn_at img) dyntab = Some (ret, symtab, strtab)" and
      c: "symtab = 0 \<or> strtab = 0 \<or> find_numsyms symtab strtab < 0"
      by blast
    from find_tables_ret [OF t] have r: "ret = (if symtab = 0 \<or> strtab = 0 then - 1 else 0)" .
    from c r have "ret < 0 \<or> find_numsyms symtab strtab < 0" by auto
    with ne minimal d t show ?thesis
      by (auto simp: get_extracopy_def whole_tail_eq Let_def)
  qed
next
  assume z: "fst (find_dynamic (phdr img) phnum) = Some dyntab
          \<and> find_tables (dyn_at img) dyntab = Some (ret, symtab, strtab)
          \<and> symtab \<noteq> 0 \<and> strtab \<noteq> 0 \<and> find_numsyms symtab strtab = 0
          \<and> libhuge_filesz img \<le> vaddr seg + filesz seg"
  then have t: "find_tables (dyn_at img) dyntab = Some (ret, symtab, strtab)" by simp
  from find_tables_ret [OF t] z have r: "ret = 0" by simp
  show "get_extracopy img minimal seg phnum = Some seg"
  proof (rule get_extracopy_without_kept_symbols [OF tail minimal])
    show "fst (find_dynamic (phdr img) phnum) = Some dyntab" using z by simp
    show "find_tables (dyn_at img) dyntab = Some (0, symtab, strtab)" using t r by simp
    show "0 \<le> find_numsyms symtab strtab" using z by simp
    show "filter (\<lambda>s. keep_symbol s (vaddr seg + filesz seg) (vaddr seg + memsz seg) \<noteq> 0)
            (symbol_table (sym_at img) symtab (find_numsyms symtab strtab)) = []"
      using z by (simp add: symbol_table_def)
  qed
qed

theorem get_extracopy_falls_back_witness:
  "filesz ex_seg < memsz ex_seg
   \<and> find_tables (dyn_at (ex_img 0x11 0 0)) 0x602000 = Some (- 1, 0x400200, 0)
   \<and> get_extracopy (ex_img 0x11 0 0) 1 ex_seg 3
       = Some (ex_seg\<lparr>extra_vaddr := 0x603000, extrasz := 0x2000\<rparr>)
   \<and> fst (find_dynamic (phdr (ex_img 0x11 0x400208 0)) 3) = Some 0x602000
   \<and> find_tables (dyn_at (ex_img 0x11 0x400208 0)) 0x602000 = Some (0, 0x400200, 0x400208)
   \<and> find_numsyms 0x400200 0x400208 = 0
   \<and> libhuge_filesz (ex_img 0x11 0x400208 0) \<le> vaddr ex_seg + filesz ex_seg
   \<and> get_extracopy (ex_img 0x11 0x400208 0) 1 ex_seg 3 = Some ex_seg"
proof -
  have h1: "filesz ex_seg < memsz ex_seg" by (simp add: ex_seg_def)
  have h2: "(1::int) \<noteq> 0" by simp
  have ft: "find_tables (dyn_at (ex_img 0x11 0 0)) 0x602000 = Some (- 1, 0x400200, 0)"
    by (simp add: ex_img_def ex_find_tables)
  have h3: "fst (find_dynamic (phdr (ex_img 0x11 0 0)) 3) = None
       \<or> (\<exists>dyntab ret symtab strtab.
             fst (find_dynamic (phdr (ex_img 0x11 0 0)) 3) = Some dyntab
           \<and> find_tables (dyn_at (ex_img 0x11 0 0)) dyntab = Some (ret, symtab, strtab)
           \<and> (symtab = 0 \<or> strtab = 0 \<or> find_numsyms symtab strtab < 0))"
    using ft by (simp add: ex_img_def ex_find_dynamic)
  have z1: "fst (find_dynamic (phdr (ex_img 0x11 0x400208 0)) 3) = Some 0x602000"
    by (simp add: ex_img_def ex_find_dynamic)
  have z2: "find_tables (dyn_at (ex_img 0x11 0x400208 0)) 0x602000 = Some (0, 0x400200, 0x400208)"
    by (simp add: ex_img_def ex_find_tables)
  have z3: "find_numsyms 0x400200 0x400208 = 0" by (simp add: find_numsyms_def)
  have z4: "(0x400200 :: 64 word) \<noteq> 0" "(0x400208 :: 64 word) \<noteq> 0" by simp_all
  have z5: "libhuge_filesz (ex_img 0x11 0x400208 0) \<le> vaddr ex_seg + filesz ex_seg"
    by (simp add: ex_img_def)
  have a: "get_extracopy (ex_img 0x11 0 0) 1 ex_seg 3
       = Some (ex_seg\<lparr>extra_vaddr := 0x603000, extrasz := 0x2000\<rparr>)"
    using get_extracopy_falls_back_to_whole_tail
            [OF h1 h2, where img = "ex_img 0x11 0 0" and phnum = 3, THEN conjunct1, THEN mp, OF h3]
    by (simp add: ex_seg_def)
  have z: "fst (find_dynamic (phdr (ex_img 0x11 0x400208 0)) 3) = Some 0x602000
          \<and> find_tables (dyn_at (ex_img 0x11 0x400208 0)) 0x602000 = Some (0, 0x400200, 0x400208)
          \<and> (0x400200 :: 64 word) \<noteq> 0 \<and> (0x400208 :: 64 word) \<noteq> 0
          \<and> find_numsyms 0x400200 0x400208 = 0
          \<and> libhuge_filesz (ex_img 0x11 0x400208 0) \<le> vaddr ex_seg + filesz ex_seg"
    using z1 z2 z3 z4 z5 by simp
  have b: "get_extracopy (ex_img 0x11 0x400208 0) 1 ex_seg 3 = Some ex_seg"
    using get_extracopy_falls_back_to_whole_tail
            [OF h1 h2, where img = "ex_img 0x11 0x400208 0" and phnum = 3 and dyntab = "0x602000"
               and ret = 0 and symtab = "0x400200" and strtab = "0x400208",
             THEN conjunct2, THEN mp, OF z] .
  from h1 ft a z1 z2 z3 z5 b show ?thesis by simp
qed

text \<open>
  The claim as stated also covers an entry count of zero. There the code does not fall
  back: a string table 8 bytes above the symbol table gives the count 0, and the window
  is left unset.
\<close>

theorem zero_symbol_count_leaves_window_unset:
  "filesz ex_seg < memsz ex_seg
   \<and> fst (find_dynamic (phdr (ex_img 0x11 0x400208 0)) 3) = Some 0x602000
   \<and> find_tables (dyn_at (ex_img 0x11 0x400208 0)) 0x602000 = Some (0, 0x400200, 0x400208)
   \<and> find_numsyms 0x400200 0x400208 = 0
   \<and> get_extracopy (ex_img 0x11 0x400208 0) 1 ex_seg 3 = Some ex_seg
   \<and> extra_vaddr ex_seg = 0
   \<and> get_extracopy (ex_img 0x11 0x400208 0) 1 ex_seg 3
       \<noteq> Some (ex_seg\<lparr>extra_vaddr := vaddr ex_seg + filesz ex_seg,
                      extrasz := memsz ex_seg - filesz ex_seg\<rparr>)"
proof -
  have n: "find_numsyms 0x400200 0x400208 = 0" by (simp add: find_numsyms_def)
  have g: "get_extracopy (ex_img 0x11 0x400208 0) 1 ex_seg 3 = Some ex_seg"
    by (simp add: get_extracopy_def ex_find_dynamic ex_find_tables ex_img_def n ex_symtab0
          apply_sentinel_def ex_seg_def)
  show ?thesis
    by (simp add: g n) (simp add: ex_img_def ex_find_dynamic ex_find_tables ex_seg_def)
qed

text \<open>
  C6, as amended: for a segment with a zero-fill tail, minimal copy enabled and the
  dynamic metadata located, let the kept symbols be exactly the dynamic symbols whose
  value lies within the zero-fill tail, whose binding is global or weak, whose type is
  object and whose size is not zero. If there is one, none of their byte ranges wraps
  around the address space and no such data object starts exactly at the end
  \<open>vaddr + memsz\<close> of the segment, then the recorded window starts at the least start of
  the kept symbols and ends at the greatest end of the kept symbols or at the address of
  \<^verbatim>\<open>__libhuge_filesz\<close>, whichever is larger.
\<close>

theorem copy_window_is_union_of_kept_symbols:
  assumes tail: "filesz seg < memsz seg"
    and minimal: "minimal \<noteq> 0"
    and dyn: "fst (find_dynamic (phdr img) phnum) = Some dyntab"
    and tabs: "find_tables (dyn_at img) dyntab = Some (0, symtab, strtab)"
    and num: "0 \<le> find_numsyms symtab strtab"
    and syms: "syms = symbol_table (sym_at img) symtab (find_numsyms symtab strtab)"
    and kept: "kept = filter (in_tail_object seg) syms"
    and nonempty: "kept \<noteq> []"
    and nowrap: "\<forall>s\<in>set kept. st_value s \<le> sym_end s"
    and boundary: "\<forall>s\<in>set syms. data_object s \<longrightarrow> st_value s \<noteq> vaddr seg + memsz seg"
  shows "get_extracopy img minimal seg phnum =
           Some (seg\<lparr>extra_vaddr := Min (st_value ` set kept),
                      extrasz := max (Max (sym_end ` set kept)) (libhuge_filesz img)
                                   - Min (st_value ` set kept)\<rparr>)"
proof -
  let ?so = "vaddr seg + filesz seg" and ?eo = "vaddr seg + memsz seg"
  have filt: "filter (\<lambda>s. keep_symbol s ?so ?eo \<noteq> 0) syms = kept"
    unfolding kept
  proof (rule filter_cong [OF refl])
    fix s assume "s \<in> set syms"
    with boundary have "data_object s \<longrightarrow> st_value s \<noteq> ?eo" by blast
    then show "(keep_symbol s ?so ?eo \<noteq> 0) = in_tail_object seg s"
      by (auto simp: keep_symbol_iff in_tail_object_def)
  qed
  have in_tail: "\<forall>s\<in>set kept. ?so \<le> st_value s \<and> st_value s < ?eo"
    unfolding kept by (auto simp: in_tail_object_def)
  have starts: "fold min (map st_value kept) ?eo = Min (st_value ` set kept)"
  proof -
    have "\<forall>x\<in>set (map st_value kept). x \<le> ?eo"
      using in_tail by (auto intro: less_imp_le)
    then show ?thesis
      using fold_min_Min [of "map st_value kept" ?eo] nonempty by auto
  qed
  have ends: "fold max (map sym_end kept) ?so = Max (sym_end ` set kept)"
  proof -
    have "\<forall>x\<in>set (map sym_end kept). ?so \<le> x"
      using in_tail nowrap by (auto intro: order_trans)
    then show ?thesis
      using fold_max_Max [of "map sym_end kept" ?so] nonempty by auto
  qed
  have scan: "scan_symbols syms ?so ?eo (False, ?eo, ?so)
                = (True, Min (st_value ` set kept), Max (sym_end ` set kept))"
    by (simp add: scan_symbols_fold filt starts ends nonempty)
  have lt: "Min (st_value ` set kept) < ?eo"
  proof -
    have "Min (st_value ` set kept) \<in> st_value ` set kept"
      using nonempty by (intro Min_in) auto
    with in_tail show ?thesis by auto
  qed
  have sent: "apply_sentinel (libhuge_filesz img) ?so ?eo
                (Min (st_value ` set kept), Max (sym_end ` set kept))
              = (Min (st_value ` set kept), max (Max (sym_end ` set kept)) (libhuge_filesz img))"
    using lt by (auto simp: apply_sentinel_def max_def)
  from tail have ne: "filesz seg \<noteq> memsz seg" by auto
  from num have nn: "\<not> find_numsyms symtab strtab < 0" by simp
  show ?thesis
    using ne minimal dyn tabs nn
    by (simp add: get_extracopy_def Let_def syms [symmetric] scan sent)
qed

lemma ex_numsyms2: "find_numsyms 0x400200 0x400230 = 2"
  by (simp add: find_numsyms_def)

lemma ex_kept: "filter (in_tail_object ex_seg) [ex_sym1 0x11, ex_sym2] = [ex_sym1 0x11]"
  by (simp add: ex_in_tail1 ex_in_tail2)

theorem copy_window_is_union_witness:
  "filesz ex_seg < memsz ex_seg
   \<and> filter (in_tail_object ex_seg) (symbol_table (sym_at (ex_img 0x11 0x400230 0)) 0x400200 2)
       = [ex_sym1 0x11]
   \<and> st_value (ex_sym1 0x11) = 0x603100 \<and> sym_end (ex_sym1 0x11) = 0x603180
   \<and> get_extracopy (ex_img 0x11 0x400230 0) 1 ex_seg 3
       = Some (ex_seg\<lparr>extra_vaddr := 0x603100, extrasz := 0x80\<rparr>)"
proof -
  let ?img = "ex_img 0x11 0x400230 0"
  have h1: "filesz ex_seg < memsz ex_seg" by (simp add: ex_seg_def)
  have h2: "(1::int) \<noteq> 0" by simp
  have h3: "fst (find_dynamic (phdr ?img) 3) = Some 0x602000"
    by (simp add: ex_img_def ex_find_dynamic)
  have h4: "find_tables (dyn_at ?img) 0x602000 = Some (0, 0x400200, 0x400230)"
    by (simp add: ex_img_def ex_find_tables)
  have h5: "0 \<le> find_numsyms 0x400200 0x400230" by (simp add: ex_numsyms2)
  have h6: "[ex_sym1 0x11, ex_sym2] = symbol_table (sym_at ?img) 0x400200 (find_numsyms 0x400200 0x400230)"
    by (simp add: ex_numsyms2 ex_img_def ex_symtab2)
  have h7: "[ex_sym1 0x11] = filter (in_tail_object ex_seg) [ex_sym1 0x11, ex_sym2]"
    by (rule ex_kept [symmetric])
  have h8: "[ex_sym1 0x11] \<noteq> []" by simp
  have h9: "\<forall>s\<in>set [ex_sym1 0x11]. st_value s \<le> sym_end s"
    by (simp add: ex_sym1_def sym_end_def)
  have h10: "\<forall>s\<in>set [ex_sym1 0x11, ex_sym2]. data_object s \<longrightarrow> st_value s \<noteq> vaddr ex_seg + memsz ex_seg"
    by (simp add: ex_sym1_def ex_sym2_def ex_seg_def)
  have e: "st_value (ex_sym1 0x11) = 0x603100 \<and> sym_end (ex_sym1 0x11) = 0x603180"
    by (simp add: ex_sym1_def sym_end_def)
  from copy_window_is_union_of_kept_symbols [OF h1 h2 h3 h4 h5 h6 h7 h8 h9 h10]
  have "get_extracopy ?img 1 ex_seg 3 = Some (ex_seg\<lparr>extra_vaddr := 0x603100, extrasz := 0x80\<rparr>)"
    by (simp add: e) (simp add: ex_img_def)
  moreover have "filter (in_tail_object ex_seg) (symbol_table (sym_at ?img) 0x400200 2) = [ex_sym1 0x11]"
    by (simp add: ex_img_def ex_symtab2 ex_in_tail1 ex_in_tail2)
  ultimately show ?thesis using h1 e by simp
qed

text \<open>
  The claim as stated makes the window exactly the union of the kept symbols. With the
  sentinel at \<open>0x604000\<close> the only kept symbol ends at \<open>0x603180\<close>, and the window
  ends at \<open>0x604000\<close>.
\<close>

theorem sentinel_widens_window_beyond_symbols:
  "filter (in_tail_object ex_seg) (symbol_table (sym_at (ex_img 0x11 0x400230 0x604000)) 0x400200 2)
       = [ex_sym1 0x11]
   \<and> sym_end (ex_sym1 0x11) = 0x603180
   \<and> get_extracopy (ex_img 0x11 0x400230 0x604000) 1 ex_seg 3
       = Some (ex_seg\<lparr>extra_vaddr := 0x603100, extrasz := 0xF00\<rparr>)
   \<and> (0x603100 :: 64 word) + 0xF00 \<noteq> 0x603180"
proof -
  have "sym_end (ex_sym1 0x11) = 0x603180" by (simp add: ex_sym1_def sym_end_def)
  moreover have "filter (in_tail_object ex_seg)
      (symbol_table (sym_at (ex_img 0x11 0x400230 0x604000)) 0x400200 2) = [ex_sym1 0x11]"
    by (simp add: ex_img_def ex_symtab2 ex_in_tail1 ex_in_tail2)
  ultimately show ?thesis
    by (simp add: ex_window_with_sentinel)
qed

text \<open>
  The sentinel when a symbol was kept: if \<^verbatim>\<open>__libhuge_filesz\<close> lies beyond the end
  the symbol scan arrived at, the recorded window ends at the address of the sentinel.
  (The start is the one of the scan; the sentinel block replaces it by \<open>vaddr + filesz\<close>
  when it finds it at \<open>vaddr + memsz\<close>, where the scan starts from.)
\<close>

lemma sentinel_extends_recorded_window:
  assumes tail: "filesz seg < memsz seg"
    and minimal: "minimal \<noteq> 0"
    and dyn: "fst (find_dynamic (phdr img) phnum) = Some dyntab"
    and tabs: "find_tables (dyn_at img) dyntab = Some (0, symtab, strtab)"
    and num: "0 \<le> find_numsyms symtab strtab"
    and syms: "syms = symbol_table (sym_at img) symtab (find_numsyms symtab strtab)"
    and scan: "scan_symbols syms (vaddr seg + filesz seg) (vaddr seg + memsz seg)
                 (False, vaddr seg + memsz seg, vaddr seg + filesz seg) = (found_sym, start, end_addr)"
    and beyond: "libhuge_filesz img > end_addr"
  shows "(found_sym \<longleftrightarrow> (\<exists>s\<in>set syms. keep_symbol s (vaddr seg + filesz seg) (vaddr seg + memsz seg) \<noteq> 0))
       \<and> get_extracopy img minimal seg phnum =
           (if found_sym
            then Some (seg\<lparr>extra_vaddr := (if start = vaddr seg + memsz seg then vaddr seg + filesz seg else start),
                            extrasz := libhuge_filesz img
                               - (if start = vaddr seg + memsz seg then vaddr seg + filesz seg else start)\<rparr>)
            else Some seg)"
proof -
  from tail have ne: "filesz seg \<noteq> memsz seg" by auto
  from num have nn: "\<not> find_numsyms symtab strtab < 0" by simp
  have f: "found_sym \<longleftrightarrow> (\<exists>s\<in>set syms. keep_symbol s (vaddr seg + filesz seg) (vaddr seg + memsz seg) \<noteq> 0)"
    using scan by (auto simp: scan_symbols_fold filter_empty_conv)
  have g: "get_extracopy img minimal seg phnum =
           (if found_sym
            then Some (seg\<lparr>extra_vaddr := (if start = vaddr seg + memsz seg then vaddr seg + filesz seg else start),
                            extrasz := libhuge_filesz img
                               - (if start = vaddr seg + memsz seg then vaddr seg + filesz seg else start)\<rparr>)
            else Some seg)"
    using ne minimal dyn tabs nn beyond
    by (simp add: get_extracopy_def Let_def syms [symmetric] scan apply_sentinel_def)
  from f g show ?thesis by blast
qed


lemma ex_scan_kept:
  "scan_symbols [ex_sym1 0x11, ex_sym2] 0x603000 0x605000 (False, 0x605000, 0x603000)
     = (True, 0x603100, 0x603180)"
  by (simp add: ex_keep1 ex_keep2) (simp add: ex_sym1_def)

lemma sentinel_extends_recorded_window_example:
  "filesz ex_seg < memsz ex_seg
   \<and> scan_symbols (symbol_table (sym_at (ex_img 0x11 0x400230 0x604000)) 0x400200 2)
         (vaddr ex_seg + filesz ex_seg) (vaddr ex_seg + memsz ex_seg)
         (False, vaddr ex_seg + memsz ex_seg, vaddr ex_seg + filesz ex_seg)
       = (True, 0x603100, 0x603180)
   \<and> libhuge_filesz (ex_img 0x11 0x400230 0x604000) > 0x603180
   \<and> get_extracopy (ex_img 0x11 0x400230 0x604000) 1 ex_seg 3
       = Some (ex_seg\<lparr>extra_vaddr := 0x603100, extrasz := 0xF00\<rparr>)"
proof -
  let ?img = "ex_img 0x11 0x400230 0x604000"
  have h1: "filesz ex_seg < memsz ex_seg" by (simp add: ex_seg_def)
  have h2: "(1::int) \<noteq> 0" by simp
  have h3: "fst (find_dynamic (phdr ?img) 3) = Some 0x602000"
    by (simp add: ex_img_def ex_find_dynamic)
  have h4: "find_tables (dyn_at ?img) 0x602000 = Some (0, 0x400200, 0x400230)"
    by (simp add: ex_img_def ex_find_tables)
  have h5: "0 \<le> find_numsyms 0x400200 0x400230" by (simp add: ex_numsyms2)
  have h6: "[ex_sym1 0x11, ex_sym2] = symbol_table (sym_at ?img) 0x400200 (find_numsyms 0x400200 0x400230)"
    by (simp add: ex_numsyms2 ex_img_def ex_symtab2)
  have h7: "scan_symbols [ex_sym1 0x11, ex_sym2] (vaddr ex_seg + filesz ex_seg) (vaddr ex_seg + memsz ex_seg)
              (False, vaddr ex_seg + memsz ex_seg, vaddr ex_seg + filesz ex_seg)
            = (True, 0x603100, 0x603180)"
    using ex_scan_kept by (simp add: ex_seg_def)
  have h8: "libhuge_filesz ?img > 0x603180" by (simp add: ex_img_def)
  from sentinel_extends_recorded_window [OF h1 h2 h3 h4 h5 h6 h7 h8]
  have "get_extracopy ?img 1 ex_seg 3 = Some (ex_seg\<lparr>extra_vaddr := 0x603100, extrasz := 0xF00\<rparr>)"
    by (simp add: ex_seg_def) (simp add: ex_img_def)
  moreover have "symbol_table (sym_at ?img) 0x400200 2 = [ex_sym1 0x11, ex_sym2]"
    using h6 by (simp add: ex_numsyms2)
  ultimately show ?thesis using h1 h7 h8 by simp
qed

text \<open>
  C7: after the scan, the sentinel block of \<^verbatim>\<open>get_extracopy\<close> moves the end of the
  window to the address of \<^verbatim>\<open>__libhuge_filesz\<close> when that lies beyond the end the scan
  arrived at, and for a scan that kept no symbol it puts the start at \<open>vaddr + filesz\<close>.
  What the block has prepared reaches the descriptor only under \<^verbatim>\<open>if (found_sym)\<close>. In
  this run the two symbols of the table are functions and none is kept, the sentinel lies
  inside the zero-fill tail, the block prepares the window from \<open>0x603000\<close> to
  \<open>0x604000\<close>, and the descriptor is left without a copy window.
\<close>

theorem sentinel_without_kept_symbols_records_nothing:
  "filesz ex_seg < memsz ex_seg
   \<and> vaddr ex_seg + filesz ex_seg = 0x603000
   \<and> vaddr ex_seg + memsz ex_seg = 0x605000
   \<and> scan_symbols (symbol_table (sym_at (ex_img 0x12 0x400230 0x604000)) 0x400200 2)
         0x603000 0x605000 (False, 0x605000, 0x603000)
       = (False, 0x605000, 0x603000)
   \<and> libhuge_filesz (ex_img 0x12 0x400230 0x604000) > 0x603000
   \<and> apply_sentinel (libhuge_filesz (ex_img 0x12 0x400230 0x604000)) 0x603000 0x605000
         (0x605000, 0x603000)
       = (0x603000, 0x604000)
   \<and> get_extracopy (ex_img 0x12 0x400230 0x604000) 1 ex_seg 3 = Some ex_seg
   \<and> extra_vaddr ex_seg = 0"
proof -
  let ?img = "ex_img 0x12 0x400230 0x604000"
  have s: "symbol_table (sym_at ?img) 0x400200 2 = [ex_sym1 0x12, ex_sym2]"
    by (simp add: ex_img_def ex_symtab2)
  have a: "vaddr ex_seg + filesz ex_seg = 0x603000" "vaddr ex_seg + memsz ex_seg = 0x605000"
    by (simp_all add: ex_seg_def)
  have sc: "scan_symbols [ex_sym1 0x12, ex_sym2] 0x603000 0x605000 (False, 0x605000, 0x603000)
              = (False, 0x605000, 0x603000)"
    by (simp add: ex_keep1_function ex_keep2)
  have se: "apply_sentinel (libhuge_filesz ?img) 0x603000 0x605000 (0x605000, 0x603000)
              = (0x603000, 0x604000)"
    by (simp add: apply_sentinel_def ex_img_def)
  have g: "get_extracopy ?img 1 ex_seg 3 = Some ex_seg"
    by (simp add: get_extracopy_def ex_find_dynamic ex_find_tables ex_symtab2 ex_img_def
        ex_numsyms2 ex_seg_def ex_keep1_function ex_keep2 apply_sentinel_def)
  have sc': "scan_symbols (symbol_table (sym_at ?img) 0x400200 2)
               0x603000 0x605000 (False, 0x605000, 0x603000)
             = (False, 0x605000, 0x603000)"
    unfolding s by (rule sc)
  have h: "filesz ex_seg < memsz ex_seg" by (simp add: ex_seg_def)
  have lf: "libhuge_filesz ?img > 0x603000" by (simp add: ex_img_def)
  have ev: "extra_vaddr ex_seg = 0" by (simp add: ex_seg_def)
  from h a sc' lf se g ev show ?thesis by blast
qed

section \<open>Facts about calls and traces\<close>

lemma sys_fst [simp]: "fst (sys w c s) = reply_at s (length (trace s))"
  by (simp add: sys_def Let_def)

lemma sys_trace [simp]:
  "trace (snd (sys w c s)) = trace s @ [(w, c, reply_at s (length (trace s)))]"
  by (simp add: sys_def Let_def)

lemma sys_errno:
  "errno (snd (sys w c s)) =
     (if rv (reply_at s (length (trace s))) < 0 then rerrno (reply_at s (length (trace s))) else errno s)"
  by (simp add: sys_def Let_def)

lemma sys_fields [simp]:
  "reply_at (snd (sys w c s)) = reply_at s"
  "getenv (snd (sys w c s)) = getenv s"
  "getuid (snd (sys w c s)) = getuid s"
  "gethugepagesize (snd (sys w c s)) = gethugepagesize s"
  "hugetlbfs_find_path (snd (sys w c s)) = hugetlbfs_find_path s"
  "atoi (snd (sys w c s)) = atoi s"
  "sigabrt_fatal (snd (sys w c s)) = sigabrt_fatal s"
  "share_path (snd (sys w c s)) = share_path s"
  "htlb_seg_table (snd (sys w c s)) = htlb_seg_table s"
  "htlb_num_segs (snd (sys w c s)) = htlb_num_segs s"
  "minimal_copy (snd (sys w c s)) = minimal_copy s"
  "sharing (snd (sys w c s)) = sharing s"
  "debug (snd (sys w c s)) = debug s"
  by (simp_all add: sys_def Let_def)

lemma sites_only_refl [simp]: "sites_only W s s"
  by (simp add: sites_only_def)

lemma sites_only_trans:
  "sites_only W s s1 \<Longrightarrow> sites_only W s1 s2 \<Longrightarrow> sites_only W s s2"
  by (auto simp: sites_only_def)

lemma sites_only_mono: "sites_only W s s' \<Longrightarrow> W \<subseteq> W' \<Longrightarrow> sites_only W' s s'"
  by (auto simp: sites_only_def list_all_iff)

lemma sites_only_sys: "sites_only W s s1 \<Longrightarrow> w \<in> W \<Longrightarrow> sites_only W s (snd (sys w c s1))"
  by (auto simp: sites_only_def)

lemma sites_only_updates [simp]:
  "sites_only W s (s1\<lparr>share_path := p\<rparr>) = sites_only W s s1"
  "sites_only W s (s1\<lparr>htlb_seg_table := t\<rparr>) = sites_only W s s1"
  "sites_only W (s\<lparr>share_path := p\<rparr>) s1 = sites_only W s s1"
  "sites_only W (s\<lparr>htlb_seg_table := t\<rparr>) s1 = sites_only W s s1"
  by (simp_all add: sites_only_def)

lemma sites_only_new_events:
  "sites_only W s s' \<Longrightarrow> list_all (\<lambda>e. fst e \<in> W) (new_events s s')"
  by (auto simp: sites_only_def new_events_def)

lemma sites_only_and_then:
  assumes "sites_only W s (state_of m)"
    and "\<And>a s1. m = Returns a s1 \<Longrightarrow> sites_only W s1 (state_of (f a s1))"
  shows "sites_only W s (state_of (and_then m f))"
proof (cases m)
  case (Returns a s1)
  with assms(1) have "sites_only W s s1" by simp
  moreover from Returns assms(2) have "sites_only W s1 (state_of (f a s1))" by simp
  ultimately show ?thesis using Returns by (auto intro: sites_only_trans)
qed (use assms(1) in auto)

lemma prepare_segment_sites:
  "sites_only W s s1 \<Longrightarrow> In_prepare_segment \<in> W \<Longrightarrow> sites_only W s (snd (prepare_segment seg s1))"
  by (simp add: prepare_segment_def Let_def split_def sites_only_sys)

lemma prepare_segment_fields [simp]:
  "reply_at (snd (prepare_segment seg s)) = reply_at s"
  "gethugepagesize (snd (prepare_segment seg s)) = gethugepagesize s"
  "share_path (snd (prepare_segment seg s)) = share_path s"
  "htlb_seg_table (snd (prepare_segment seg s)) = htlb_seg_table s"
  "htlb_num_segs (snd (prepare_segment seg s)) = htlb_num_segs s"
  "sharing (snd (prepare_segment seg s)) = sharing s"
  by (simp_all add: prepare_segment_def Let_def split_def)

section \<open>Facts about the abort path and the remap loop\<close>

lemma format_writes_are_writes:
  "\<forall>c\<in>set (format_writes fmt pending ap). \<exists>txt. c = Direct_write 2 txt"
  by (induction fmt pending ap rule: format_writes.induct)
     (auto simp: write_err_base_def split: list.splits)

lemma format_writes_not_empty: "format_writes fmt pending ap \<noteq> []"
  by (induction fmt pending ap rule: format_writes.induct) auto

lemma sys_all_fields [simp]:
  "reply_at (sys_all w cs s) = reply_at s"
  "gethugepagesize (sys_all w cs s) = gethugepagesize s"
  "sigabrt_fatal (sys_all w cs s) = sigabrt_fatal s"
  by (induction cs arbitrary: s) simp_all

lemma sys_all_trace:
  "\<exists>rs. length rs = length cs \<and> trace (sys_all w cs s) = trace s @ map (\<lambda>(c, r). (w, c, r)) (zip cs rs)"
proof (induction cs arbitrary: s)
  case Nil
  show ?case by simp
next
  case (Cons c cs)
  from Cons.IH [of "snd (sys w c s)"] obtain rs where
    rs: "length rs = length cs"
      "trace (sys_all w cs (snd (sys w c s))) = trace (snd (sys w c s)) @ map (\<lambda>(c, r). (w, c, r)) (zip cs rs)"
    by blast
  show ?case
    by (rule exI [of _ "reply_at s (length (trace s)) # rs"]) (simp add: rs)
qed

lemma abort_path_snoc:
  assumes "writes \<noteq> []" and "list_all is_stderr_write writes"
  shows "abort_path (writes @ [(In_unmapped_abort, Direct_getpid, r1),
                              (In_unmapped_abort, Direct_kill (rv r1) SIGABRT, r2)])"
  using assms by (simp add: abort_path_def)

lemma stderr_write_not_kill: "is_stderr_write e \<Longrightarrow> kill_delivered e"
  by (cases e rule: is_stderr_write.cases) auto

text \<open>
  What \<^verbatim>\<open>unmapped_abort\<close> does: the events it adds are an abort path; the process
  ends there when the signal is fatal and the kernel took it, and otherwise the function
  returns.
\<close>

lemma unmapped_abort_shape:
  "\<exists>s' evs. trace s' = trace s @ evs
      \<and> abort_path evs \<and> list_all (\<lambda>e. fst e = In_unmapped_abort) evs
      \<and> reply_at s' = reply_at s \<and> gethugepagesize s' = gethugepagesize s
      \<and> sigabrt_fatal s' = sigabrt_fatal s
      \<and> (list_all kill_delivered evs
           \<longleftrightarrow> rv (reply_at s (length (trace s) + length (format_writes fmt [] ap) + 1)) = 0)
      \<and> unmapped_abort fmt ap s
          = (if sigabrt_fatal s \<and> list_all kill_delivered evs then Terminated s' else Returns () s')"
proof -
  let ?cs = "format_writes fmt [] ap"
  let ?s1 = "sys_all In_unmapped_abort ?cs s"
  obtain rs where rs: "length rs = length ?cs"
    "trace ?s1 = trace s @ map (\<lambda>(c, r). (In_unmapped_abort, c, r)) (zip ?cs rs)"
    using sys_all_trace by blast
  let ?writes = "map (\<lambda>(c, r). (In_unmapped_abort, c, r)) (zip ?cs rs)"
  let ?r1 = "reply_at ?s1 (length (trace ?s1))"
  let ?s2 = "snd (sys In_unmapped_abort Direct_getpid ?s1)"
  let ?r2 = "reply_at ?s2 (length (trace ?s2))"
  let ?s3 = "snd (sys In_unmapped_abort (Direct_kill (rv ?r1) SIGABRT) ?s2)"
  let ?evs = "?writes @ [(In_unmapped_abort, Direct_getpid, ?r1),
                         (In_unmapped_abort, Direct_kill (rv ?r1) SIGABRT, ?r2)]"
  have out: "unmapped_abort fmt ap s
               = (if rv ?r2 = 0 \<and> sigabrt_fatal s then Terminated ?s3 else Returns () ?s3)"
    by (simp add: unmapped_abort_def sys_abort_def Let_def split_def)
  have w1: "?writes \<noteq> []"
    using format_writes_not_empty [of fmt "[]" ap] rs(1) by (cases ?cs; cases rs) auto
  have w2: "list_all is_stderr_write ?writes"
  proof -
    have "\<forall>e\<in>set (zip ?cs rs). is_stderr_write (In_unmapped_abort, fst e, snd e)"
    proof
      fix e assume "e \<in> set (zip ?cs rs)"
      then have "(fst e, snd e) \<in> set (zip ?cs rs)" by simp
      then have "fst e \<in> set ?cs" by (rule set_zip_leftD)
      with format_writes_are_writes obtain msg where "fst e = Direct_write 2 msg" by blast
      then show "is_stderr_write (In_unmapped_abort, fst e, snd e)" by simp
    qed
    then show ?thesis by (auto simp: list_all_iff)
  qed
  have w3: "list_all (\<lambda>e. fst e = In_unmapped_abort) ?writes"
    by (auto simp: list_all_iff)
  have w4: "list_all kill_delivered ?writes"
    using w2 by (auto simp: list_all_iff intro: stderr_write_not_kill)
  have kd: "list_all kill_delivered ?evs \<longleftrightarrow> rv ?r2 = 0"
    using w4 by simp
  have tr: "trace ?s3 = trace s @ ?evs"
    by (simp add: rs(2))
  have ap: "abort_path ?evs" by (rule abort_path_snoc [OF w1 w2])
  have sites: "list_all (\<lambda>e. fst e = In_unmapped_abort) ?evs" using w3 by simp
  have out': "unmapped_abort fmt ap s
          = (if sigabrt_fatal s \<and> list_all kill_delivered ?evs then Terminated ?s3 else Returns () ?s3)"
    unfolding out kd by auto
  have f: "reply_at ?s3 = reply_at s" "gethugepagesize ?s3 = gethugepagesize s"
    "sigabrt_fatal ?s3 = sigabrt_fatal s"
    by simp_all
  have kd': "list_all kill_delivered ?evs
           \<longleftrightarrow> rv (reply_at s (length (trace s) + length (format_writes fmt [] ap) + 1)) = 0"
    unfolding kd by (simp add: rs)
  from tr ap sites f kd' out' show ?thesis by blast
qed

lemma unmapped_abort_sites:
  "sites_only {In_remap_segments, In_unmapped_abort} s (state_of (unmapped_abort fmt ap s))"
proof -
  from unmapped_abort_shape [of s fmt ap] obtain s' evs where
    a: "trace s' = trace s @ evs" "list_all (\<lambda>e. fst e = In_unmapped_abort) evs"
      "unmapped_abort fmt ap s
          = (if sigabrt_fatal s \<and> list_all kill_delivered evs then Terminated s' else Returns () s')"
    by blast
  from a(3) have "state_of (unmapped_abort fmt ap s) = s'" by (simp split: if_splits)
  with a(1,2) show ?thesis by (auto simp: sites_only_def list_all_iff)
qed

lemma failed_remap_site: "failed_remap e \<Longrightarrow> fst e = In_remap_segments"
  by (cases e rule: failed_remap.cases) auto

lemma unmap_all_trace:
  "\<exists>evs. trace (unmap_all seg idx s) = trace s @ evs \<and> (\<forall>e\<in>set evs. \<not> failed_remap e)
      \<and> list_all (\<lambda>e. fst e = In_remap_segments) evs"
proof (induction idx arbitrary: s)
  case Nil
  show ?case by simp
next
  case (Cons i idx)
  let ?s1 = "snd (sys In_remap_segments (Munmap (vaddr (seg ! i)) (memsz (seg ! i))) s)"
  from Cons.IH [of ?s1] obtain evs where
    evs: "trace (unmap_all seg idx ?s1) = trace ?s1 @ evs" "\<forall>e\<in>set evs. \<not> failed_remap e"
      "list_all (\<lambda>e. fst e = In_remap_segments) evs"
    by blast
  show ?case
    by (rule exI [of _ "(In_remap_segments, Munmap (vaddr (seg ! i)) (memsz (seg ! i)),
                          reply_at s (length (trace s))) # evs"])
       (simp add: evs)
qed

lemma unmap_all_fields [simp]:
  "reply_at (unmap_all seg idx s) = reply_at s"
  "gethugepagesize (unmap_all seg idx s) = gethugepagesize s"
  "sigabrt_fatal (unmap_all seg idx s) = sigabrt_fatal s"
  by (induction idx arbitrary: s) simp_all

lemma remap_all_sites:
  "sites_only {In_remap_segments, In_unmapped_abort} s (state_of (remap_all seg idx s))"
proof (induction idx arbitrary: s)
  case Nil
  show ?case by simp
next
  case (Cons i idx)
  let ?W = "{In_remap_segments, In_unmapped_abort}"
  let ?mapsize = "ALIGN (memsz (seg ! i)) (gethugepagesize s)"
  let ?c = "Mmap (vaddr (seg ! i)) ?mapsize (prot (seg ! i)) (MAP_PRIVATE OR MAP_FIXED) (fd (seg ! i)) 0"
  let ?s1 = "snd (sys In_remap_segments ?c s)"
  let ?p = "word_of_int (rv (reply_at s (length (trace s)))) :: 64 word"
  let ?A = "if ?p = MAP_FAILED
            then unmapped_abort fmt_failed
                   [of_nat i, vaddr (seg ! i), vaddr (seg ! i) + ?mapsize, word_of_int (errno ?s1)] ?s1
            else Returns () ?s1"
  let ?B = "\<lambda>s2. if ?p \<noteq> vaddr (seg ! i)
                 then unmapped_abort fmt_wrong
                        [of_nat i, vaddr (seg ! i), vaddr (seg ! i) + ?mapsize, ?p] s2
                 else Returns () s2"
  have out: "remap_all seg (i # idx) s
               = and_then ?A (\<lambda>_ s2. and_then (?B s2) (\<lambda>_ s3. remap_all seg idx s3))"
    by (simp add: Let_def split_def cong: if_cong)
  have s1: "sites_only ?W s ?s1" by (simp add: sites_only_sys)
  have A: "sites_only ?W ?s1 (state_of ?A)" by (simp add: unmapped_abort_sites)
  have B: "\<And>s2. sites_only ?W s2 (state_of (?B s2))" by (simp add: unmapped_abort_sites)
  have "sites_only ?W ?s1 (state_of (and_then ?A (\<lambda>_ s2. and_then (?B s2) (\<lambda>_ s3. remap_all seg idx s3))))"
    by (rule sites_only_and_then [OF A]) (rule sites_only_and_then [OF B], rule Cons.IH)
  with s1 show ?case unfolding out by (rule sites_only_trans)
qed

lemma new_events_append:
  "trace s1 = trace s @ xs \<Longrightarrow> trace f = trace s1 @ ys \<Longrightarrow>
     new_events s f = xs @ ys \<and> new_events s1 f = ys"
  by (simp add: new_events_def)

lemma sites_only_extends: "sites_only W s s' \<Longrightarrow> \<exists>ys. trace s' = trace s @ ys"
  by (auto simp: sites_only_def)

text \<open>One turn of the loop of Step 4, with the two tests named.\<close>

lemma remap_all_Cons:
  "remap_all seg (i # idx) s
     = and_then
         (if (word_of_int (rv (reply_at s (length (trace s)))) :: 64 word) = MAP_FAILED
          then unmapped_abort fmt_failed
                 [of_nat i, vaddr (seg ! i),
                  vaddr (seg ! i) + ALIGN (memsz (seg ! i)) (gethugepagesize s),
                  word_of_int (errno (snd (sys In_remap_segments
                    (Mmap (vaddr (seg ! i)) (ALIGN (memsz (seg ! i)) (gethugepagesize s))
                       (prot (seg ! i)) (MAP_PRIVATE OR MAP_FIXED) (fd (seg ! i)) 0) s)))]
                 (snd (sys In_remap_segments
                    (Mmap (vaddr (seg ! i)) (ALIGN (memsz (seg ! i)) (gethugepagesize s))
                       (prot (seg ! i)) (MAP_PRIVATE OR MAP_FIXED) (fd (seg ! i)) 0) s))
          else Returns ()
                 (snd (sys In_remap_segments
                    (Mmap (vaddr (seg ! i)) (ALIGN (memsz (seg ! i)) (gethugepagesize s))
                       (prot (seg ! i)) (MAP_PRIVATE OR MAP_FIXED) (fd (seg ! i)) 0) s)))
         (\<lambda>_ s2.
            and_then
              (if (word_of_int (rv (reply_at s (length (trace s)))) :: 64 word) \<noteq> vaddr (seg ! i)
               then unmapped_abort fmt_wrong
                      [of_nat i, vaddr (seg ! i),
                       vaddr (seg ! i) + ALIGN (memsz (seg ! i)) (gethugepagesize s),
                       word_of_int (rv (reply_at s (length (trace s))))] s2
               else Returns () s2)
              (\<lambda>_ s3. remap_all seg idx s3))"
  by (simp add: Let_def split_def cong: if_cong)

text \<open>
  When \<^verbatim>\<open>SIGABRT\<close> does not end the process, \<^verbatim>\<open>unmapped_abort\<close> returns, whatever
  it was called for.
\<close>

lemma maybe_abort_survives:
  assumes "\<not> sigabrt_fatal s"
  shows "\<exists>s' evs. (if c then unmapped_abort fmt ap s else Returns () s) = Returns () s'
      \<and> trace s' = trace s @ evs \<and> list_all (\<lambda>e. fst e = In_unmapped_abort) evs
      \<and> reply_at s' = reply_at s \<and> gethugepagesize s' = gethugepagesize s
      \<and> \<not> sigabrt_fatal s'"
proof (cases c)
  case True
  from unmapped_abort_shape [of s fmt ap] obtain s' evs where
    a: "trace s' = trace s @ evs" "list_all (\<lambda>e. fst e = In_unmapped_abort) evs"
      "reply_at s' = reply_at s" "gethugepagesize s' = gethugepagesize s"
      "sigabrt_fatal s' = sigabrt_fatal s"
      "unmapped_abort fmt ap s
          = (if sigabrt_fatal s \<and> list_all kill_delivered evs then Terminated s' else Returns () s')"
    by blast
  from a(6) assms have "unmapped_abort fmt ap s = Returns () s'" by simp
  with True a(1-5) assms show ?thesis by auto
next
  case False
  with assms show ?thesis by (intro exI [of _ s] exI [of _ "[]"]) simp
qed

lemma remap_all_step_survives:
  assumes nf: "\<not> sigabrt_fatal s"
  shows "\<exists>s' evs. remap_all seg (i # idx) s = remap_all seg idx s'
      \<and> trace s' = trace s @ (In_remap_segments,
                               Mmap (vaddr (seg ! i)) (ALIGN (memsz (seg ! i)) (gethugepagesize s))
                                 (prot (seg ! i)) (MAP_PRIVATE OR MAP_FIXED) (fd (seg ! i)) 0,
                               reply_at s (length (trace s))) # evs
      \<and> list_all (\<lambda>e. fst e = In_unmapped_abort) evs
      \<and> reply_at s' = reply_at s \<and> gethugepagesize s' = gethugepagesize s
      \<and> \<not> sigabrt_fatal s'"
proof -
  let ?c = "Mmap (vaddr (seg ! i)) (ALIGN (memsz (seg ! i)) (gethugepagesize s))
              (prot (seg ! i)) (MAP_PRIVATE OR MAP_FIXED) (fd (seg ! i)) 0"
  let ?s1 = "snd (sys In_remap_segments ?c s)"
  let ?p = "word_of_int (rv (reply_at s (length (trace s)))) :: 64 word"
  have nf1: "\<not> sigabrt_fatal ?s1" using nf by simp
  from maybe_abort_survives [OF nf1, of "?p = MAP_FAILED" fmt_failed
      "[of_nat i, vaddr (seg ! i), vaddr (seg ! i) + ALIGN (memsz (seg ! i)) (gethugepagesize s),
        word_of_int (errno ?s1)]"]
  obtain s2 evs2 where
    a: "(if ?p = MAP_FAILED
         then unmapped_abort fmt_failed
                [of_nat i, vaddr (seg ! i), vaddr (seg ! i) + ALIGN (memsz (seg ! i)) (gethugepagesize s),
                 word_of_int (errno ?s1)] ?s1
         else Returns () ?s1) = Returns () s2"
      "trace s2 = trace ?s1 @ evs2" "list_all (\<lambda>e. fst e = In_unmapped_abort) evs2"
      "reply_at s2 = reply_at ?s1" "gethugepagesize s2 = gethugepagesize ?s1" "\<not> sigabrt_fatal s2"
    by blast
  from maybe_abort_survives [OF a(6), of "?p \<noteq> vaddr (seg ! i)" fmt_wrong
      "[of_nat i, vaddr (seg ! i), vaddr (seg ! i) + ALIGN (memsz (seg ! i)) (gethugepagesize s), ?p]"]
  obtain s3 evs3 where
    b: "(if ?p \<noteq> vaddr (seg ! i)
         then unmapped_abort fmt_wrong
                [of_nat i, vaddr (seg ! i), vaddr (seg ! i) + ALIGN (memsz (seg ! i)) (gethugepagesize s), ?p] s2
         else Returns () s2) = Returns () s3"
      "trace s3 = trace s2 @ evs3" "list_all (\<lambda>e. fst e = In_unmapped_abort) evs3"
      "reply_at s3 = reply_at s2" "gethugepagesize s3 = gethugepagesize s2" "\<not> sigabrt_fatal s3"
    by blast
  have out: "remap_all seg (i # idx) s = remap_all seg idx s3"
    unfolding remap_all_Cons a(1) and_then.simps b(1) ..
  have tr: "trace s3 = trace s @ (In_remap_segments, ?c, reply_at s (length (trace s))) # (evs2 @ evs3)"
    by (simp add: b(2) a(2))
  have sites: "list_all (\<lambda>e. fst e = In_unmapped_abort) (evs2 @ evs3)"
    using a(3) b(3) by simp
  have f: "reply_at s3 = reply_at s" "gethugepagesize s3 = gethugepagesize s"
    by (simp_all add: a(4,5) b(4,5))
  from out tr sites f b(6) show ?thesis by blast
qed

lemma remap_all_survives:
  "\<not> sigabrt_fatal s \<Longrightarrow> \<exists>s'. remap_all seg idx s = Returns () s'"
proof (induction idx arbitrary: s)
  case Nil
  show ?case by simp
next
  case (Cons i idx)
  from remap_all_step_survives [OF Cons.prems, of seg i idx] obtain s' where
    "remap_all seg (i # idx) s = remap_all seg idx s'" "\<not> sigabrt_fatal s'"
    by blast
  with Cons.IH [of s'] show ?case by simp
qed

text \<open>
  So \<^verbatim>\<open>remap_segments\<close> returns to its caller in a process that \<^verbatim>\<open>SIGABRT\<close> does
  not end, whatever the mappings came to.
\<close>

lemma remap_segments_survives:
  "\<not> sigabrt_fatal s \<Longrightarrow> \<exists>s'. remap_segments seg num s = Returns () s'"
  by (simp add: remap_segments_def Let_def remap_all_survives)

lemma split_at_unique:
  "xs @ b # ys = pre @ e # post \<Longrightarrow> P e \<Longrightarrow> \<forall>x\<in>set xs. \<not> P x \<Longrightarrow> \<forall>y\<in>set ys. \<not> P y \<Longrightarrow>
     pre = xs \<and> e = b \<and> post = ys"
proof (induction xs arbitrary: pre)
  case Nil
  then show ?case by (cases pre) auto
next
  case (Cons x xs)
  then show ?case by (cases pre) auto
qed

text \<open>
  An abort that is followed by more of the run, in a process that \<^verbatim>\<open>SIGABRT\<close> ends
  and with every \<^verbatim>\<open>kill\<close> of the run taken by the kernel: the run ends with the abort.
\<close>

lemma abort_then_ends:
  assumes fatal: "sigabrt_fatal s"
    and cont: "\<And>a s2. sites_only {In_remap_segments, In_unmapped_abort} s2 (state_of (k a s2))"
    and kd: "list_all kill_delivered (new_events s (state_of (and_then (unmapped_abort fmt ap s) k)))"
  shows "\<exists>s' evs. and_then (unmapped_abort fmt ap s) k = Terminated s' \<and> trace s' = trace s @ evs
      \<and> abort_path evs \<and> list_all (\<lambda>e. fst e = In_unmapped_abort) evs"
proof -
  from unmapped_abort_shape [of s fmt ap] obtain s' evs where
    a: "trace s' = trace s @ evs" "abort_path evs" "list_all (\<lambda>e. fst e = In_unmapped_abort) evs"
      "unmapped_abort fmt ap s
          = (if sigabrt_fatal s \<and> list_all kill_delivered evs then Terminated s' else Returns () s')"
    by blast
  let ?f = "state_of (and_then (unmapped_abort fmt ap s) k)"
  have "\<exists>ys. trace ?f = trace s' @ ys"
  proof (cases "sigabrt_fatal s \<and> list_all kill_delivered evs")
    case True
    with a(4) show ?thesis by simp
  next
    case False
    with a(4) have "?f = state_of (k () s')" by simp
    with cont [of s' "()"] show ?thesis by (simp add: sites_only_extends)
  qed
  then obtain ys where ys: "trace ?f = trace s' @ ys" by blast
  from new_events_append [OF a(1) ys] have "new_events s ?f = evs @ ys" by simp
  with kd have "list_all kill_delivered evs" by simp
  with a(4) fatal have "and_then (unmapped_abort fmt ap s) k = Terminated s'" by simp
  with a(1-3) show ?thesis by blast
qed

lemma remap_all_shape:
  assumes "sigabrt_fatal s"
    and "list_all kill_delivered (new_events s (state_of (remap_all seg idx s)))"
  shows "\<exists>goods rest.
      trace (state_of (remap_all seg idx s)) = trace s @ goods @ rest
    \<and> (\<forall>e\<in>set goods. \<not> failed_remap e)
    \<and> list_all (\<lambda>e. fst e = In_remap_segments) goods
    \<and> ((rest = [] \<and> (\<exists>s'. remap_all seg idx s = Returns () s'))
       \<or> (\<exists>b ab s'. rest = b # ab \<and> failed_remap b \<and> abort_path ab
             \<and> list_all (\<lambda>e. fst e = In_unmapped_abort) ab
             \<and> remap_all seg idx s = Terminated s'))"
  using assms
proof (induction idx arbitrary: s)
  case Nil
  show ?case by (intro exI [of _ "[]"]) simp
next
  case (Cons i idx)
  let ?W = "{In_remap_segments, In_unmapped_abort}"
  let ?mapsize = "ALIGN (memsz (seg ! i)) (gethugepagesize s)"
  let ?c = "Mmap (vaddr (seg ! i)) ?mapsize (prot (seg ! i)) (MAP_PRIVATE OR MAP_FIXED) (fd (seg ! i)) 0"
  let ?r = "reply_at s (length (trace s))"
  let ?s1 = "snd (sys In_remap_segments ?c s)"
  let ?p = "word_of_int (rv ?r) :: 64 word"
  let ?e = "(In_remap_segments, ?c, ?r)"
  let ?f = "state_of (remap_all seg (i # idx) s)"
  have tr1: "trace ?s1 = trace s @ [?e]" by simp
  have fatal1: "sigabrt_fatal ?s1" using Cons.prems(1) by simp
  have "sites_only ?W ?s1 ?f"
  proof -
    have "sites_only ?W s ?f" by (rule remap_all_sites)
    then obtain ys where ys: "trace ?f = trace s @ ys" "list_all (\<lambda>e. fst e \<in> ?W) ys"
      unfolding sites_only_def by blast
    have "\<exists>zs. trace ?f = trace ?s1 @ zs"
      unfolding remap_all_Cons
      by (rule sites_only_extends [of ?W])
         (intro sites_only_and_then, simp_all add: unmapped_abort_sites remap_all_sites sites_only_and_then)
    then obtain zs where zs: "trace ?f = trace ?s1 @ zs" by blast
    with ys(1) have "ys = ?e # zs" by simp
    with ys(2) have "list_all (\<lambda>e. fst e \<in> ?W) zs" by simp
    with zs show ?thesis unfolding sites_only_def by blast
  qed
  then obtain zs where zs: "trace ?f = trace ?s1 @ zs" by (auto simp: sites_only_def)
  from new_events_append [OF tr1 zs] have ne: "new_events s ?f = ?e # zs" "new_events ?s1 ?f = zs"
    by simp_all
  from Cons.prems(2) ne have kd1: "list_all kill_delivered (new_events ?s1 ?f)" by simp
  show ?case
  proof (cases "?p = MAP_FAILED \<or> ?p \<noteq> vaddr (seg ! i)")
    case True
    then have bad: "failed_remap ?e" by simp
    have "\<exists>fmt ap k. remap_all seg (i # idx) s = and_then (unmapped_abort fmt ap ?s1) k
            \<and> (\<forall>a s2. sites_only ?W s2 (state_of (k a s2)))"
    proof (cases "?p = MAP_FAILED")
      case True
      show ?thesis
        apply (rule exI [of _ fmt_failed])
        apply (rule exI [of _ "[of_nat i, vaddr (seg ! i), vaddr (seg ! i) + ?mapsize, word_of_int (errno ?s1)]"])
        apply (rule exI [of _ "\<lambda>_ s2. and_then
              (if ?p \<noteq> vaddr (seg ! i)
               then unmapped_abort fmt_wrong [of_nat i, vaddr (seg ! i), vaddr (seg ! i) + ?mapsize, ?p] s2
               else Returns () s2)
              (\<lambda>_ s3. remap_all seg idx s3)"])
        using True
        by (simp add: remap_all_Cons unmapped_abort_sites remap_all_sites sites_only_and_then
              del: remap_all.simps)
    next
      case False
      with True have ne: "?p \<noteq> vaddr (seg ! i)" by simp
      show ?thesis
        apply (rule exI [of _ fmt_wrong])
        apply (rule exI [of _ "[of_nat i, vaddr (seg ! i), vaddr (seg ! i) + ?mapsize, ?p]"])
        apply (rule exI [of _ "\<lambda>_ s3. remap_all seg idx s3"])
        using False ne
        by (simp add: remap_all_Cons remap_all_sites del: remap_all.simps)
    qed
    then obtain fmt ap k where
      out: "remap_all seg (i # idx) s = and_then (unmapped_abort fmt ap ?s1) k" and
      k: "\<And>a s2. sites_only ?W s2 (state_of (k a s2))"
      by blast
    from kd1 have "list_all kill_delivered (new_events ?s1 (state_of (and_then (unmapped_abort fmt ap ?s1) k)))"
      by (simp only: out)
    from abort_then_ends [OF fatal1 k this] obtain s' evs where
      ab: "and_then (unmapped_abort fmt ap ?s1) k = Terminated s'" "trace s' = trace ?s1 @ evs"
        "abort_path evs" "list_all (\<lambda>e. fst e = In_unmapped_abort) evs"
      by blast
    show ?thesis
      apply (rule exI [of _ "[]"])
      apply (rule exI [of _ "?e # evs"])
      using ab bad by (simp add: out tr1 del: remap_all.simps failed_remap.simps)
  next
    case False
    then have np: "?p \<noteq> MAP_FAILED" and eq: "?p = vaddr (seg ! i)" by auto
    from np eq have good: "\<not> failed_remap ?e" by simp
    from np eq have out: "remap_all seg (i # idx) s = remap_all seg idx ?s1"
      by (simp add: remap_all_Cons del: remap_all.simps)
    from kd1 have kd2: "list_all kill_delivered (new_events ?s1 (state_of (remap_all seg idx ?s1)))"
      by (simp only: out)
    from Cons.IH [OF fatal1 kd2] obtain goods rest where
      ih: "trace (state_of (remap_all seg idx ?s1)) = trace ?s1 @ goods @ rest"
        "\<forall>e\<in>set goods. \<not> failed_remap e"
        "list_all (\<lambda>e. fst e = In_remap_segments) goods"
        "(rest = [] \<and> (\<exists>s'. remap_all seg idx ?s1 = Returns () s'))
         \<or> (\<exists>b ab s'. rest = b # ab \<and> failed_remap b \<and> abort_path ab
               \<and> list_all (\<lambda>e. fst e = In_unmapped_abort) ab
               \<and> remap_all seg idx ?s1 = Terminated s')"
      by blast
    show ?thesis
      apply (rule exI [of _ "?e # goods"])
      apply (rule exI [of _ rest])
      using ih good by (simp add: out tr1 del: remap_all.simps failed_remap.simps)
  qed
qed

section \<open>Claims about the remap engine and the materializer\<close>

text \<open>
  In a process that \<^verbatim>\<open>SIGABRT\<close> ends, and when the kernel takes every \<^verbatim>\<open>kill\<close> of
  the run: after a fixed-address mapping of \<^verbatim>\<open>remap_segments\<close> that failed or came
  back at another address, everything the process does is the abort path, and
  \<^verbatim>\<open>remap_segments\<close> does not return.
\<close>

lemma remap_failure_is_fatal:
  assumes fatal: "sigabrt_fatal s"
    and kd: "list_all kill_delivered (new_events s (state_of (remap_segments seg num s)))"
    and ev: "new_events s (state_of (remap_segments seg num s)) = pre @ e # post"
    and bad: "failed_remap e"
  shows "(\<exists>s'. remap_segments seg num s = Terminated s') \<and> abort_path post"
proof -
  let ?e0 = "(In_remap_segments, Mmap 0 0 0 0 0 0, reply_at s (length (trace s)))"
  let ?s1 = "snd (sys In_remap_segments (Mmap 0 0 0 0 0 0) s)"
  let ?s2 = "unmap_all seg [0 ..< num] ?s1"
  let ?f = "state_of (remap_all seg [0 ..< num] ?s2)"
  have out: "remap_segments seg num s = remap_all seg [0 ..< num] ?s2"
    by (simp add: remap_segments_def Let_def)
  have e0: "\<not> failed_remap ?e0" by (simp add: MAP_PRIVATE_def MAP_FIXED_def)
  obtain us where us: "trace ?s2 = trace ?s1 @ us" "\<forall>e\<in>set us. \<not> failed_remap e"
    using unmap_all_trace by blast
  have tr2: "trace ?s2 = trace s @ ?e0 # us" by (simp add: us(1))
  obtain ys where ys: "trace ?f = trace ?s2 @ ys"
    using sites_only_extends [OF remap_all_sites] by blast
  from new_events_append [OF tr2 ys] have ne: "new_events s ?f = (?e0 # us) @ ys" "new_events ?s2 ?f = ys"
    by simp_all
  from kd have kd2: "list_all kill_delivered (new_events ?s2 ?f)"
    unfolding out ne by simp
  have fatal2: "sigabrt_fatal ?s2" using fatal by simp
  obtain goods rest where
    sh: "trace ?f = trace ?s2 @ goods @ rest"
      "\<forall>e\<in>set goods. \<not> failed_remap e"
      "(rest = [] \<and> (\<exists>s'. remap_all seg [0 ..< num] ?s2 = Returns () s'))
       \<or> (\<exists>b ab s'. rest = b # ab \<and> failed_remap b \<and> abort_path ab
             \<and> list_all (\<lambda>e. fst e = In_unmapped_abort) ab
             \<and> remap_all seg [0 ..< num] ?s2 = Terminated s')"
    using remap_all_shape [OF fatal2 kd2] by blast
  let ?xs = "?e0 # us @ goods"
  have xs: "\<forall>x\<in>set ?xs. \<not> failed_remap x" using e0 us(2) sh(2) by auto
  have new: "new_events s (state_of (remap_segments seg num s)) = ?xs @ rest"
    by (simp add: new_events_def out sh(1) us(1))
  from sh(3) show ?thesis
  proof
    assume "rest = [] \<and> (\<exists>s'. remap_all seg [0 ..< num] ?s2 = Returns () s')"
    with new ev have "?xs = pre @ e # post" by simp
    then have "e \<in> set ?xs" by (metis in_set_conv_decomp)
    with xs bad show ?thesis by blast
  next
    assume "\<exists>b ab s'. rest = b # ab \<and> failed_remap b \<and> abort_path ab
             \<and> list_all (\<lambda>e. fst e = In_unmapped_abort) ab
             \<and> remap_all seg [0 ..< num] ?s2 = Terminated s'"
    then obtain b ab s' where r: "rest = b # ab" "failed_remap b" "abort_path ab"
      "list_all (\<lambda>e. fst e = In_unmapped_abort) ab" "remap_all seg [0 ..< num] ?s2 = Terminated s'"
      by blast
    have ab: "\<forall>y\<in>set ab. \<not> failed_remap y"
    proof
      fix y assume "y \<in> set ab"
      with r(4) have "fst y = In_unmapped_abort" by (simp add: list_all_iff)
      then show "\<not> failed_remap y" using failed_remap_site [of y] by auto
    qed
    from new ev r(1) have "?xs @ b # ab = pre @ e # post" by simp
    from split_at_unique [OF this, of failed_remap] bad xs ab have "post = ab" by blast
    with r(3) r(5) out show ?thesis by simp
  qed
qed

lemma ex_state_simps [simp]:
  "reply_at (ex_state env replies) = replies"
  "trace (ex_state env replies) = []"
  "gethugepagesize (ex_state env replies) = 0x200000"
  "getenv (ex_state env replies) = env"
  "sigabrt_fatal (ex_state env replies)"
  by (simp_all add: ex_state_def)

lemma ALIGN_ex [simp]:
  "ALIGN 0x2000 0x200000 = 0x200000"
  "ALIGN 0x5000 0x200000 = 0x200000"
  "ALIGN 0x3180 0x200000 = 0x200000"
  by (simp_all add: ALIGN_def)

text \<open>The remap of the first segment succeeds, the second one lands elsewhere.\<close>

lemma fmt_wrong_writes: "length (format_writes fmt_wrong [] ap) = 9"
  by (simp add: fmt_wrong_def)

lemma remap_all_Nil: "remap_all seg [] = Returns ()"
  by (rule ext) simp

lemma remap_failure_is_fatal_example:
  "\<exists>pre post.
     sigabrt_fatal (ex_state Map.empty wrong_address_replies)
   \<and> list_all kill_delivered
       (new_events (ex_state Map.empty wrong_address_replies)
          (state_of (remap_segments ex_segs 2 (ex_state Map.empty wrong_address_replies))))
   \<and> new_events (ex_state Map.empty wrong_address_replies)
       (state_of (remap_segments ex_segs 2 (ex_state Map.empty wrong_address_replies)))
       = pre @ (In_remap_segments,
                Mmap 0x600000 0x200000 (PROT_READ OR PROT_WRITE) (MAP_PRIVATE OR MAP_FIXED) 4 0,
                reply_of 0x7f0000000000 0) # post
   \<and> failed_remap (In_remap_segments,
                Mmap 0x600000 0x200000 (PROT_READ OR PROT_WRITE) (MAP_PRIVATE OR MAP_FIXED) 4 0,
                reply_of 0x7f0000000000 0)
   \<and> (\<exists>s'. remap_segments ex_segs 2 (ex_state Map.empty wrong_address_replies) = Terminated s')
   \<and> abort_path post"
proof -
  let ?s = "ex_state Map.empty wrong_address_replies"
  let ?e = "(In_remap_segments,
                Mmap 0x600000 0x200000 (PROT_READ OR PROT_WRITE) (MAP_PRIVATE OR MAP_FIXED) 4 0,
                reply_of 0x7f0000000000 0)"
  let ?pre = "[(In_remap_segments, Mmap 0 0 0 0 0 0, reply_of (- 1) 22),
              (In_remap_segments, Munmap 0x400000 0x2000, reply_of 0 0),
              (In_remap_segments, Munmap 0x600000 0x5000, reply_of 0 0),
              (In_remap_segments,
                Mmap 0x400000 0x200000 (PROT_READ OR PROT_EXEC) (MAP_PRIVATE OR MAP_FIXED) 3 0,
                reply_of 0x400000 0)]"
  let ?s5 = "sys_all In_remap_segments
               [Mmap 0 0 0 0 0 0, Munmap 0x400000 0x2000, Munmap 0x600000 0x5000,
                Mmap 0x400000 0x200000 (PROT_READ OR PROT_EXEC) (MAP_PRIVATE OR MAP_FIXED) 3 0,
                Mmap 0x600000 0x200000 (PROT_READ OR PROT_WRITE) (MAP_PRIVATE OR MAP_FIXED) 4 0] ?s"
  let ?ap = "[of_nat 1, 0x600000, 0x600000 + 0x200000, 0x7f0000000000] :: 64 word list"
  have run: "remap_segments ex_segs 2 ?s
               = and_then (unmapped_abort fmt_wrong ?ap ?s5) (\<lambda>_ s3. remap_all ex_segs [] s3)"
    by (simp add: remap_segments_def upt_0_2 ex_segs_def Let_def split_def remap_all_Nil
          wrong_address_replies_def reply_of_def MAP_FAILED_def)
  have tr5: "trace ?s5 = ?pre @ [?e]"
    by (simp add: wrong_address_replies_def)
  have f5: "sigabrt_fatal ?s5" "reply_at ?s5 = wrong_address_replies" by simp_all
  from unmapped_abort_shape [of ?s5 fmt_wrong ?ap] obtain s' post where
    ab: "trace s' = trace ?s5 @ post" "abort_path post"
      "list_all kill_delivered post
         \<longleftrightarrow> rv (reply_at ?s5 (length (trace ?s5) + length (format_writes fmt_wrong [] ?ap) + 1)) = 0"
      "unmapped_abort fmt_wrong ?ap ?s5
          = (if sigabrt_fatal ?s5 \<and> list_all kill_delivered post then Terminated s' else Returns () s')"
    by blast
  from ab(3) have kdp: "list_all kill_delivered post"
    by (simp only: tr5 f5 fmt_wrong_writes) (simp add: wrong_address_replies_def reply_of_def)
  with ab(4) f5(1) have ends: "unmapped_abort fmt_wrong ?ap ?s5 = Terminated s'" by simp
  have ev: "new_events ?s (state_of (remap_segments ex_segs 2 ?s)) = ?pre @ ?e # post"
    unfolding run ends by (simp add: new_events_def ab(1) wrong_address_replies_def)
  have kd: "list_all kill_delivered (new_events ?s (state_of (remap_segments ex_segs 2 ?s)))"
    unfolding ev using kdp by simp
  have bad: "failed_remap ?e"
    by (simp add: reply_of_def MAP_FAILED_def)
  have fatal: "sigabrt_fatal ?s" by simp
  from remap_failure_is_fatal [OF fatal kd ev bad]
  have "(\<exists>s'. remap_segments ex_segs 2 ?s = Terminated s') \<and> abort_path post" .
  with fatal kd ev bad show ?thesis
    by (intro exI [of _ ?pre] exI [of _ post]) simp
qed

text \<open>
  C3: in \<^verbatim>\<open>remap_segments\<close> a fixed-address huge-page mapping that fails or comes
  back at another address is answered with \<^verbatim>\<open>unmapped_abort\<close>, which writes its
  message and sends \<^verbatim>\<open>SIGABRT\<close> to the process. Nothing in the code ends the process
  if the signal does not. In this run \<^verbatim>\<open>SIGABRT\<close> is ignored and the mapping of the
  first segment fails: \<^verbatim>\<open>unmapped_abort\<close> comes back, the loop goes on to map the
  second segment, and \<^verbatim>\<open>remap_segments\<close> returns to its caller.
\<close>

theorem ignored_sigabrt_lets_remap_segments_return:
  "\<exists>s' post r.
      remap_segments ex_segs 2 sigabrt_ignored_state = Returns () s'
    \<and> new_events sigabrt_ignored_state s'
        = [(In_remap_segments, Mmap 0 0 0 0 0 0, reply_of (- 1) 22),
           (In_remap_segments, Munmap 0x400000 0x2000, reply_of 0 0),
           (In_remap_segments, Munmap 0x600000 0x5000, reply_of 0 0),
           (In_remap_segments,
              Mmap 0x400000 0x200000 (PROT_READ OR PROT_EXEC) (MAP_PRIVATE OR MAP_FIXED) 3 0,
              reply_of (- 1) 12)] @ post
    \<and> failed_remap (In_remap_segments,
              Mmap 0x400000 0x200000 (PROT_READ OR PROT_EXEC) (MAP_PRIVATE OR MAP_FIXED) 3 0,
              reply_of (- 1) 12)
    \<and> (In_remap_segments,
          Mmap 0x600000 0x200000 (PROT_READ OR PROT_WRITE) (MAP_PRIVATE OR MAP_FIXED) 4 0, r) \<in> set post"
proof -
  let ?s0 = "sigabrt_ignored_state"
  let ?s2 = "unmap_all ex_segs [0, 1] (snd (sys In_remap_segments (Mmap 0 0 0 0 0 0) ?s0))"
  let ?pre = "[(In_remap_segments, Mmap 0 0 0 0 0 0, reply_of (- 1) 22),
           (In_remap_segments, Munmap 0x400000 0x2000, reply_of 0 0),
           (In_remap_segments, Munmap 0x600000 0x5000, reply_of 0 0)]"
  let ?e0 = "(In_remap_segments,
              Mmap 0x400000 0x200000 (PROT_READ OR PROT_EXEC) (MAP_PRIVATE OR MAP_FIXED) 3 0,
              reply_of (- 1) 12)"
  have s0: "trace ?s0 = []" "reply_at ?s0 = first_mapping_fails_replies"
    "gethugepagesize ?s0 = 0x200000" "\<not> sigabrt_fatal ?s0"
    by (simp_all add: sigabrt_ignored_state_def)
  have out: "remap_segments ex_segs 2 ?s0 = remap_all ex_segs [0, 1] ?s2"
    by (simp add: remap_segments_def Let_def upt_0_2 del: remap_all.simps unmap_all.simps)
  have s2: "trace ?s2 = ?pre" "reply_at ?s2 = first_mapping_fails_replies"
    "gethugepagesize ?s2 = 0x200000" "\<not> sigabrt_fatal ?s2"
    by (simp_all add: s0 ex_segs_def first_mapping_fails_replies_def)
  from remap_all_step_survives [OF s2(4), of ex_segs 0 "[1]"] obtain s3 evs3 where
    a: "remap_all ex_segs [0, 1] ?s2 = remap_all ex_segs [1] s3"
      "trace s3 = trace ?s2 @ (In_remap_segments,
                               Mmap (vaddr (ex_segs ! 0)) (ALIGN (memsz (ex_segs ! 0)) (gethugepagesize ?s2))
                                 (prot (ex_segs ! 0)) (MAP_PRIVATE OR MAP_FIXED) (fd (ex_segs ! 0)) 0,
                               reply_at ?s2 (length (trace ?s2))) # evs3"
      "reply_at s3 = reply_at ?s2" "gethugepagesize s3 = gethugepagesize ?s2" "\<not> sigabrt_fatal s3"
    by blast
  have tr3: "trace s3 = ?pre @ ?e0 # evs3"
    unfolding a(2) s2 by (simp add: ex_segs_def first_mapping_fails_replies_def)
  from remap_all_step_survives [OF a(5), of ex_segs 1 "[]"] obtain s4 evs4 where
    b: "remap_all ex_segs [1] s3 = remap_all ex_segs [] s4"
      "trace s4 = trace s3 @ (In_remap_segments,
                               Mmap (vaddr (ex_segs ! 1)) (ALIGN (memsz (ex_segs ! 1)) (gethugepagesize s3))
                                 (prot (ex_segs ! 1)) (MAP_PRIVATE OR MAP_FIXED) (fd (ex_segs ! 1)) 0,
                               reply_at s3 (length (trace s3))) # evs4"
    by blast
  let ?r = "reply_at s3 (length (trace s3))"
  let ?e1 = "(In_remap_segments,
          Mmap 0x600000 0x200000 (PROT_READ OR PROT_WRITE) (MAP_PRIVATE OR MAP_FIXED) 4 0, ?r)"
  have tr4: "trace s4 = ?pre @ ?e0 # (evs3 @ ?e1 # evs4)"
    unfolding b(2) a(4) s2(3) tr3 by (simp add: ex_segs_def)
  have run: "remap_segments ex_segs 2 ?s0 = Returns () s4"
    unfolding out a(1) b(1) by simp
  have ne: "new_events ?s0 s4 = (?pre @ [?e0]) @ (evs3 @ ?e1 # evs4)"
    by (simp add: new_events_def s0(1) tr4)
  have bad: "failed_remap ?e0" by (simp add: reply_of_def MAP_FAILED_def)
  have mem: "?e1 \<in> set (evs3 @ ?e1 # evs4)" by simp
  from run ne bad mem show ?thesis
    by (intro exI [of _ s4] exI [of _ "evs3 @ ?e1 # evs4"] exI [of _ ?r]) simp
qed

text \<open>
  For a huge page size that is a power of two, \<open>ALIGN x\<close> clears the low bits of
  \<open>x + (size - 1)\<close>: it is the least multiple of the size that is not below \<open>x\<close>, as
  long as the sum does not wrap around.
\<close>

lemma and_not_mask_push_drop:
  "(w :: 64 word) AND NOT (mask n) = push_bit n (drop_bit n w)"
  by (rule bit_eqI) (auto simp: bit_simps)

lemma ALIGN_power_of_two:
  "ALIGN x (2 ^ n) = push_bit n (drop_bit n (x + mask n))"
proof -
  have m: "(2 :: 64 word) ^ n - 1 = mask n" by (simp add: mask_eq_exp_minus_1)
  have a: "x + 2 ^ n - 1 = x + mask n" by (simp add: m [symmetric])
  show ?thesis unfolding ALIGN_def a m by (rule and_not_mask_push_drop)
qed

lemma unat_mask_64:
  "n < 64 \<Longrightarrow> unat (mask n :: 64 word) = 2 ^ n - 1"
proof -
  assume n: "n < 64"
  have "uint (mask n :: 64 word) = mask n"
    using n by (simp only: uint_mask_eq) (simp add: min_def)
  also have "(mask n :: int) = 2 ^ n - 1" by (rule mask_eq_exp_minus_1)
  finally have "uint (mask n :: 64 word) = 2 ^ n - 1" .
  then have "unat (mask n :: 64 word) = nat (2 ^ n - 1)" 
    by (simp only: unat_eq_nat_uint)
  also have "\<dots> = 2 ^ n - 1" by (simp add: nat_diff_distrib nat_power_eq)
  finally show ?thesis .
qed

lemma ALIGN_rounds_up:
  assumes "n < 64" and "unat x + (2 ^ n - 1) < (2 :: nat) ^ 64"
  shows "unat (ALIGN x (2 ^ n)) = (unat x + (2 ^ n - 1)) div 2 ^ n * 2 ^ n"
proof -
  have s: "unat (x + mask n) = unat x + (2 ^ n - 1)"
    using assms unat_add_lem [of x "mask n"] by (simp add: unat_mask_64)
  have le: "(unat x + (2 ^ n - 1)) div 2 ^ n * 2 ^ n \<le> unat x + (2 ^ n - 1)"
    by simp
  from le assms(2) have lt: "(unat x + (2 ^ n - 1)) div 2 ^ n * 2 ^ n < (2 :: nat) ^ 64"
    by (rule le_less_trans)
  have "unat (ALIGN x (2 ^ n)) = take_bit 64 ((unat x + (2 ^ n - 1)) div 2 ^ n * 2 ^ n)"
    unfolding ALIGN_power_of_two unsigned_push_bit_eq unat_drop_bit_eq s
    by (simp add: push_bit_eq_mult drop_bit_eq_div)
  also have "\<dots> = (unat x + (2 ^ n - 1)) div 2 ^ n * 2 ^ n"
    using lt by (simp only: take_bit_nat_eq_self)
  finally show ?thesis .
qed

text \<open>
  C4: the size \<^verbatim>\<open>prepare_segment\<close> maps, populates and unmaps is
  \<^verbatim>\<open>ALIGN(extra_vaddr + extrasz - vaddr, hpage_size)\<close> when a copy window is set
  (\<^verbatim>\<open>extra_vaddr\<close> not null) and \<^verbatim>\<open>ALIGN(filesz, hpage_size)\<close> otherwise: it is the
  length of the temporary mapping, the first call of the function, and of its unmapping,
  the last call when the function returns 0.
\<close>

theorem prepare_segment_population_size:
  "hd (new_events s (snd (prepare_segment seg s)))
     = (In_prepare_segment,
        Mmap 0 (if extra_vaddr seg \<noteq> 0
                then ALIGN (extra_vaddr seg + extrasz seg - vaddr seg) (gethugepagesize s)
                else ALIGN (filesz seg) (gethugepagesize s))
          (PROT_READ OR PROT_WRITE) MAP_SHARED (fd seg) 0,
        reply_at s (length (trace s)))
   \<and> (fst (prepare_segment seg s) = 0 \<longrightarrow>
        (\<exists>r. last (new_events s (snd (prepare_segment seg s)))
           = (In_prepare_segment,
              Munmap (word_of_int (rv (reply_at s (length (trace s)))))
                (if extra_vaddr seg \<noteq> 0
                 then ALIGN (extra_vaddr seg + extrasz seg - vaddr seg) (gethugepagesize s)
                 else ALIGN (filesz seg) (gethugepagesize s)), r)))"
  by (simp add: prepare_segment_def prepare_size_def Let_def split_def new_events_def)

theorem prepare_segment_population_size_witness:
  "extra_vaddr (ex_segs ! 1) \<noteq> 0
   \<and> extra_vaddr (ex_segs ! 1) + extrasz (ex_segs ! 1) - vaddr (ex_segs ! 1) = 0x3180
   \<and> hd (new_events (ex_state Map.empty mapping_succeeds_replies)
            (snd (prepare_segment (ex_segs ! 1) (ex_state Map.empty mapping_succeeds_replies))))
       = (In_prepare_segment, Mmap 0 0x200000 (PROT_READ OR PROT_WRITE) MAP_SHARED 4 0,
          reply_of 0x7f0000000000 0)
   \<and> fst (prepare_segment (ex_segs ! 1) (ex_state Map.empty mapping_succeeds_replies)) = 0
   \<and> (\<exists>r. last (new_events (ex_state Map.empty mapping_succeeds_replies)
            (snd (prepare_segment (ex_segs ! 1) (ex_state Map.empty mapping_succeeds_replies))))
       = (In_prepare_segment, Munmap 0x7f0000000000 0x200000, r))"
proof -
  let ?s = "ex_state Map.empty mapping_succeeds_replies"
  let ?seg = "ex_segs ! 1"
  have seg: "extra_vaddr ?seg \<noteq> 0" "extra_vaddr ?seg + extrasz ?seg - vaddr ?seg = 0x3180"
    "fd ?seg = 4"
    by (simp_all add: ex_segs_def)
  have r0: "reply_at ?s (length (trace ?s)) = reply_of 0x7f0000000000 0"
    by (simp add: mapping_succeeds_replies_def)
  have ok: "fst (prepare_segment ?seg ?s) = 0"
    by (simp add: prepare_segment_def Let_def split_def mapping_succeeds_replies_def
          reply_of_def MAP_FAILED_def)
  have r00: "mapping_succeeds_replies 0 = reply_of 0x7f0000000000 0"
    by (simp add: mapping_succeeds_replies_def)
  have p: "(word_of_int (rv (reply_of 0x7f0000000000 0)) :: 64 word) = 0x7f0000000000"
    by (simp add: reply_of_def)
  from prepare_segment_population_size [of ?s ?seg] ok seg show ?thesis
    by (simp add: r00 p)
qed

section \<open>Facts about paths\<close>

lemma fmt_d_64: "fmt_d 64 = ''64''"
  by (simp add: fmt_d_def digits_lsb.simps digit_def)

lemma fmt_d_0: "fmt_d 0 = ''0''"
  by (simp add: fmt_d_def)

lemma fmt_d_int_0: "fmt_d (int 0) = ''0''"
  by (simp add: fmt_d_def)

lemma basename_prog: "basename ''/usr/bin/prog'' = ''prog''"
  by (simp add: basename_def)

lemma shared_state_simps [simp]:
  "reply_at (shared_state replies) = replies"
  "trace (shared_state replies) = []"
  "gethugepagesize (shared_state replies) = 0x200000"
  "share_path (shared_state replies) = ''/mnt/huge/elflink-uid-1000''"
  "sharing (shared_state replies) = 1"
  by (simp_all add: shared_state_def ex_state_def)

lemma ex_shared_names:
  "get_shared_file_name (ex_segs ! 0) (shared_state preparer_fd0_replies)
     = Returns (0, ''/mnt/huge/elflink-uid-1000/prog_64_0'')
         (snd (sys In_get_shared_file_name (Readlink ''/proc/self/exe'') (shared_state preparer_fd0_replies)))"
  by (simp add: get_shared_file_name_def Let_def split_def preparer_fd0_replies_def assemble_path_def
       PATH_MAX_def basename_prog fmt_d_64 fmt_d_0 ex_segs_def)

section \<open>Claims about the shared-file protocol and the share directory\<close>

text \<open>
  C8 (a preparer whose materializer or rename fails unlinks its temporary file and closes
  the descriptor): the code does that only for a descriptor greater than 0. Here the
  exclusive open returns descriptor 0, the final file is absent, so the process is the
  preparer (\<^verbatim>\<open>fdx >= 0\<close>); the temporary mapping fails, the code after \<^verbatim>\<open>fail\<close>
  tests \<^verbatim>\<open>fdx > 0\<close>, and the function returns -1 having neither unlinked the
  temporary file nor closed the descriptor.
\<close>

theorem preparer_with_descriptor_zero_skips_cleanup:
  "\<exists>s'. find_or_prepare_shared_file 3 (ex_segs ! 0) (shared_state preparer_fd0_replies)
           = Returns (- 1, (ex_segs ! 0)\<lparr>fd := 0\<rparr>) s'
      \<and> map (\<lambda>e. fst (snd e)) (trace s')
          = [Readlink ''/proc/self/exe'',
             Open_file ''/mnt/huge/elflink-uid-1000/prog_64_0.tmp'' (O_CREAT OR O_EXCL OR O_RDWR) 438,
             Open_file ''/mnt/huge/elflink-uid-1000/prog_64_0'' O_RDONLY 0,
             Mmap 0 0x200000 (PROT_READ OR PROT_WRITE) MAP_SHARED 0 0]"
  unfolding find_or_prepare_shared_file_def ex_shared_names
  by (simp add: assemble_path_def PATH_MAX_def
        numeral_3_eq_3 Let_def split_def preparer_fd0_replies_def reply_of_def
        prepare_segment_def prepare_size_def shared_file_fail_def MAP_FAILED_def ex_segs_def ALIGN_def)


text \<open>The code after \<^verbatim>\<open>fail\<close>: the clean-up is done for a descriptor above 0 only.\<close>

lemma shared_file_fail_cleans_up:
  assumes "fdx > 0" and "fds \<le> 0"
  shows "\<exists>s' r1 r2. shared_file_fail fdx fds tmp_path seg s = Returns (- 1, seg) s'
           \<and> trace s' = trace s @ [(In_find_or_prepare_shared_file, Unlink tmp_path, r1),
                                    (In_find_or_prepare_shared_file, Close_fd fdx, r2)]"
  using assms by (simp add: shared_file_fail_def Let_def)

lemma shared_file_fail_without_cleanup:
  assumes "fdx \<le> 0" and "fds \<le> 0"
  shows "shared_file_fail fdx fds tmp_path seg s = Returns (- 1, seg) s"
  using assms by (simp add: shared_file_fail_def Let_def)


lemma share_path_override_run:
  assumes env: "getenv s ''HUGETLB_SHARE_PATH'' = Some env"
    and ok: "find_or_create_share_path s = Returns 0 s'"
  shows "share_path s' = env
       \<and> new_events s s' = [(In_find_or_create_share_path, Hugetlbfs_test_path env,
                              reply_at s (length (trace s)))]
       \<and> rv (reply_at s (length (trace s))) = 0"
  using ok
  by (auto simp: find_or_create_share_path_def env Let_def split_def assemble_path_def new_events_def
        split: if_splits)

lemma share_path_default_run:
  assumes env: "getenv s ''HUGETLB_SHARE_PATH'' = None"
    and ok: "find_or_create_share_path s = Returns 0 s'"
  shows "\<exists>r1 r2.
           new_events s s' = [(In_find_or_create_share_path, Mkdir (share_path s') 448, r1),
                              (In_find_or_create_share_path, Lstat (share_path s'), r2)]
         \<and> (rv r1 = 0 \<or> (if rv r1 < 0 then rerrno r1 else errno s) = EEXIST)
         \<and> rv r2 = 0 \<and> S_ISDIR (st_mode r2) \<and> st_uid r2 = getuid s
         \<and> st_mode r2 AND (S_IWGRP OR S_IWOTH) = 0
         \<and> share_path s' = elflink_uid_path s"
  using ok
  by (auto simp: find_or_create_share_path_def env Let_def split_def assemble_path_def new_events_def
        sys_errno split: if_splits)

section \<open>Facts about configuration, scan and share directory\<close>

lemma check_env_fields [simp]:
  "trace (snd (check_env s)) = trace s"
  "reply_at (snd (check_env s)) = reply_at s"
  "getenv (snd (check_env s)) = getenv s"
  "htlb_num_segs (snd (check_env s)) = htlb_num_segs s"
  "htlb_seg_table (snd (check_env s)) = htlb_seg_table s"
  "gethugepagesize (snd (check_env s)) = gethugepagesize s"
  "getuid (snd (check_env s)) = getuid s"
  by (simp_all add: check_env_def Let_def split: option.split)

lemma parse_elf_loop_fields:
  "parse_elf_loop img idx s = Some s' \<Longrightarrow>
     trace s' = trace s \<and> reply_at s' = reply_at s \<and> getenv s' = getenv s
     \<and> sharing s' = sharing s \<and> gethugepagesize s' = gethugepagesize s \<and> getuid s' = getuid s"
proof (induction idx arbitrary: s)
  case Nil
  then show ?case by simp
next
  case (Cons i idx)
  show ?case
  proof (cases "p_type (phdr img i) \<noteq> PT_LOAD \<or> p_flags (phdr img i) AND PF_LINUX_HUGETLB = 0")
    case True
    with Cons.prems have "parse_elf_loop img idx s = Some s'" by (auto split: if_splits)
    then show ?thesis by (rule Cons.IH)
  next
    case False
    then have f: "p_type (phdr img i) = PT_LOAD" "p_flags (phdr img i) AND PF_LINUX_HUGETLB \<noteq> 0"
      by auto
    show ?thesis
    proof (cases "htlb_num_segs s \<ge> MAX_HTLB_SEGS")
      case True
      with f Cons.prems have "s' = s\<lparr>htlb_num_segs := 0\<rparr>" by simp
      then show ?thesis by simp
    next
      case full: False
      from f full Cons.prems obtain seg' where
        "parse_elf_loop img idx
           (s\<lparr>htlb_seg_table := (htlb_seg_table s)[htlb_num_segs s := seg'],
              htlb_num_segs := Suc (htlb_num_segs s)\<rparr>) = Some s'"
        by (simp add: Let_def split: option.splits)
      from Cons.IH [OF this] show ?thesis by simp
    qed
  qed
qed

lemma find_or_create_share_path_sites:
  assumes "find_or_create_share_path s = Returns r s'"
  shows "sites_only {In_find_or_create_share_path} s s'"
proof (cases "getenv s ''HUGETLB_SHARE_PATH''")
  case None
  with assms show ?thesis
    by (simp add: find_or_create_share_path_def Let_def split_def assemble_path_def
          sites_only_sys split: if_splits)
       (auto simp: sites_only_sys)
next
  case (Some env)
  with assms show ?thesis
    by (simp add: find_or_create_share_path_def Let_def split_def assemble_path_def
          sites_only_sys split: if_splits)
       (auto simp: sites_only_sys)
qed

lemma fmt_d_1000: "fmt_d 1000 = ''1000''"
  by (simp add: fmt_d_def digits_lsb.simps digit_def)

lemma ex_elflink_uid_path: "elflink_uid_path (ex_state env replies) = ''/mnt/huge/elflink-uid-1000''"
  by (simp add: elflink_uid_path_def ex_state_def fmt_d_1000)

lemma ex_state_more [simp]:
  "getuid (ex_state env replies) = 1000"
  "errno (ex_state env replies) = 0"
  "htlb_seg_table (ex_state env replies) = [zero_seg, zero_seg]"
  "htlb_num_segs (ex_state env replies) = 0"
  "minimal_copy (ex_state env replies) = 1"
  "sharing (ex_state env replies) = 0"
  by (simp_all add: ex_state_def)

lemma ex_default_share_path:
  "find_or_create_share_path (ex_state share_env good_dir_replies)
     = Returns 0
        (snd (sys In_find_or_create_share_path (Lstat ''/mnt/huge/elflink-uid-1000'')
           (snd (sys In_find_or_create_share_path (Mkdir ''/mnt/huge/elflink-uid-1000'' 448)
              ((ex_state share_env good_dir_replies)\<lparr>share_path := ''/mnt/huge/elflink-uid-1000''\<rparr>)))))"
  by (simp add: find_or_create_share_path_def share_env_def ex_elflink_uid_path assemble_path_def
        PATH_MAX_def Let_def split_def good_dir_replies_def reply_of_def sys_errno EEXIST_def
        S_ISDIR_def S_IFMT_def S_IFDIR_def S_IWGRP_def S_IWOTH_def)

lemma ex_foreign_share_path:
  "getenv s ''HUGETLB_SHARE_PATH'' = None \<Longrightarrow> reply_at s = foreign_dir_replies \<Longrightarrow> trace s = [] \<Longrightarrow>
   getuid s = 1000 \<Longrightarrow> length (elflink_uid_path s) \<le> PATH_MAX \<Longrightarrow>
   \<exists>s'. find_or_create_share_path s = Returns (- 1) s'"
  by (simp add: find_or_create_share_path_def assemble_path_def
        Let_def split_def foreign_dir_replies_def reply_of_def sys_errno EEXIST_def
        S_ISDIR_def S_IFMT_def S_IFDIR_def)

lemma ex_window_without_sentinel:
  "get_extracopy (ex_img 0x11 0x400230 0) 1 ex_seg 3
     = Some (ex_seg\<lparr>extra_vaddr := 0x603100, extrasz := 0x80\<rparr>)"
  by (simp add: get_extracopy_def ex_find_dynamic ex_find_tables ex_symtab2 ex_img_def
        find_numsyms_def ex_seg_def ex_keep1 ex_keep2 apply_sentinel_def)
     (simp add: ex_sym1_def)

lemma ex_text_no_window:
  "get_extracopy img 1 ex_text_seg n = Some ex_text_seg"
  by (simp add: get_extracopy_def ex_text_seg_def)

lemma ex_phdr_simps:
  "ex_phdr 0 = \<lparr>p_type = 1, p_flags = 0x100005, p_vaddr = 0x400000, p_filesz = 0x2000, p_memsz = 0x2000\<rparr>"
  "ex_phdr (Suc 0) = \<lparr>p_type = 2, p_flags = 6, p_vaddr = 0x602000, p_filesz = 0x40, p_memsz = 0x40\<rparr>"
  "ex_phdr 2 = \<lparr>p_type = 1, p_flags = 0x100006, p_vaddr = 0x600000, p_filesz = 0x3000, p_memsz = 0x5000\<rparr>"
  by (simp_all add: ex_phdr_def elf_consts)

lemma ex_seg_from_zero:
  "zero_seg\<lparr>vaddr := 0x400000, filesz := 0x2000, memsz := 0x2000, prot := 5, index := 0\<rparr> = ex_text_seg"
  "zero_seg\<lparr>vaddr := 0x600000, filesz := 0x3000, memsz := 0x5000, prot := 3, index := 2\<rparr> = ex_seg"
  by (simp_all add: zero_seg_def ex_text_seg_def ex_seg_def PROT_READ_def PROT_WRITE_def PROT_EXEC_def)

lemma ex_parse_elf:
  assumes "htlb_seg_table s = [zero_seg, zero_seg]" and "htlb_num_segs s = 0" and "minimal_copy s = 1"
  shows "parse_elf (ex_img 0x11 0x400230 0) s
           = Some (s\<lparr>htlb_seg_table := [ex_text_seg, ex_seg\<lparr>extra_vaddr := 0x603100, extrasz := 0x80\<rparr>],
                     htlb_num_segs := 2\<rparr>)"
proof -
  let ?img = "ex_img 0x11 0x400230 0"
  have ph: "phdr ?img = ex_phdr" "unat (e_phnum ?img) = 3" "uint (e_phnum ?img) = 3"
    by (simp_all add: ex_img_def)
  show ?thesis
    by (simp add: parse_elf_def ph upt_0_3 ex_phdr_simps Let_def elf_consts assms
          ex_seg_from_zero ex_text_no_window ex_window_without_sentinel)
qed

lemma ex_check_env_share:
  "check_env (ex_state share_env replies) = (0, (ex_state share_env replies)\<lparr>sharing := 1\<rparr>)"
  by (simp add: check_env_def share_env_def Let_def ex_state_def)

text \<open>
  C9, as amended: when \<^verbatim>\<open>find_or_create_share_path\<close> succeeds with an explicit share
  path from the environment, the path has been tested to be on the huge-page file system
  and nothing else (no owner or permission check, no creation); when it succeeds without
  one, the directory \<^verbatim>\<open>elflink-uid-<uid>\<close> under the huge-page mount point has been
  created with mode 0700 unless it existed, and \<^verbatim>\<open>lstat\<close> has shown a directory owned
  by the current user and not writable by group or others. When sharing is enabled and
  the function fails, \<^verbatim>\<open>setup_elflink\<close> returns having made no call but those of
  \<^verbatim>\<open>find_or_create_share_path\<close>: no file is prepared and nothing is remapped.
\<close>

theorem share_directory_checks:
  "(find_or_create_share_path s = Returns 0 s' \<longrightarrow>
      (case getenv s ''HUGETLB_SHARE_PATH'' of
         Some env \<Rightarrow>
           share_path s' = env
           \<and> (\<exists>r. new_events s s' = [(In_find_or_create_share_path, Hugetlbfs_test_path env, r)]
                  \<and> rv r = 0)
       | None \<Rightarrow>
           (\<exists>r1 r2.
              new_events s s' = [(In_find_or_create_share_path, Mkdir (share_path s') 448, r1),
                                 (In_find_or_create_share_path, Lstat (share_path s'), r2)]
              \<and> (rv r1 = 0 \<or> (if rv r1 < 0 then rerrno r1 else errno s) = EEXIST)
              \<and> rv r2 = 0 \<and> S_ISDIR (st_mode r2) \<and> st_uid r2 = getuid s
              \<and> st_mode r2 AND (S_IWGRP OR S_IWOTH) = 0
              \<and> share_path s' = elflink_uid_path s)))
   \<and> (executable_start img \<and> check_env s0 = (0, s1) \<and> parse_elf img s1 = Some s2
        \<and> htlb_num_segs s2 \<noteq> 0 \<and> sharing s2 \<noteq> 0
        \<and> find_or_create_share_path s2 = Returns r s3 \<and> r \<noteq> 0 \<longrightarrow>
        setup_elflink budget img s0 = Returns () s3
        \<and> sites_only {In_find_or_create_share_path} s0 s3)"
proof (intro conjI impI)
  assume ok: "find_or_create_share_path s = Returns 0 s'"
  show "case getenv s ''HUGETLB_SHARE_PATH'' of
         Some env \<Rightarrow>
           share_path s' = env
           \<and> (\<exists>r. new_events s s' = [(In_find_or_create_share_path, Hugetlbfs_test_path env, r)]
                  \<and> rv r = 0)
       | None \<Rightarrow>
           (\<exists>r1 r2.
              new_events s s' = [(In_find_or_create_share_path, Mkdir (share_path s') 448, r1),
                                 (In_find_or_create_share_path, Lstat (share_path s'), r2)]
              \<and> (rv r1 = 0 \<or> (if rv r1 < 0 then rerrno r1 else errno s) = EEXIST)
              \<and> rv r2 = 0 \<and> S_ISDIR (st_mode r2) \<and> st_uid r2 = getuid s
              \<and> st_mode r2 AND (S_IWGRP OR S_IWOTH) = 0
              \<and> share_path s' = elflink_uid_path s)"
  proof (cases "getenv s ''HUGETLB_SHARE_PATH''")
    case None
    from share_path_default_run [OF None ok] None show ?thesis by simp
  next
    case (Some env)
    from share_path_override_run [OF Some ok] Some show ?thesis by simp
  qed
next
  assume a: "executable_start img \<and> check_env s0 = (0, s1) \<and> parse_elf img s1 = Some s2
        \<and> htlb_num_segs s2 \<noteq> 0 \<and> sharing s2 \<noteq> 0
        \<and> find_or_create_share_path s2 = Returns r s3 \<and> r \<noteq> 0"
  then have sel: "select_segments img s0 = Returns False s3"
    by (simp add: select_segments_def)
  then show "setup_elflink budget img s0 = Returns () s3"
    by (simp add: setup_elflink_def)
  from a have "snd (check_env s0) = s1" by simp
  then have "trace s1 = trace s0" using check_env_fields(1) [of s0] by simp
  moreover from a have "trace s2 = trace s1"
    using parse_elf_loop_fields [of img "[0 ..< unat (e_phnum img)]" s1 s2] by (simp add: parse_elf_def)
  moreover from a have "sites_only {In_find_or_create_share_path} s2 s3"
    by (simp add: find_or_create_share_path_sites)
  ultimately show "sites_only {In_find_or_create_share_path} s0 s3"
    by (simp add: sites_only_def)
qed


theorem share_directory_checks_witness:
  "\<exists>s' s3. find_or_create_share_path (ex_state share_env good_dir_replies) = Returns 0 s'
    \<and> getenv (ex_state share_env good_dir_replies) ''HUGETLB_SHARE_PATH'' = None
    \<and> share_path s' = ''/mnt/huge/elflink-uid-1000''
    \<and> (\<exists>r1 r2. new_events (ex_state share_env good_dir_replies) s'
                   = [(In_find_or_create_share_path, Mkdir (share_path s') 448, r1),
                      (In_find_or_create_share_path, Lstat (share_path s'), r2)]
                \<and> S_ISDIR (st_mode r2) \<and> st_uid r2 = 1000 \<and> st_mode r2 AND (S_IWGRP OR S_IWOTH) = 0)
    \<and> setup_elflink 3 (ex_img 0x11 0x400230 0) (ex_state share_env foreign_dir_replies) = Returns () s3
    \<and> sites_only {In_find_or_create_share_path} (ex_state share_env foreign_dir_replies) s3"
proof -
  let ?sa = "ex_state share_env good_dir_replies"
  let ?s0 = "ex_state share_env foreign_dir_replies"
  let ?img = "ex_img 0x11 0x400230 0"
  let ?s1 = "?s0\<lparr>sharing := 1\<rparr>"
  let ?s2 = "?s1\<lparr>htlb_seg_table := [ex_text_seg, ex_seg\<lparr>extra_vaddr := 0x603100, extrasz := 0x80\<rparr>],
                 htlb_num_segs := 2\<rparr>"
  obtain s' where ok: "find_or_create_share_path ?sa = Returns 0 s'"
    using ex_default_share_path by blast
  have env: "getenv ?sa ''HUGETLB_SHARE_PATH'' = None" by (simp add: share_env_def)
  have h1: "executable_start ?img" by (simp add: ex_img_def)
  have h2: "check_env ?s0 = (0, ?s1)" by (rule ex_check_env_share)
  have h3: "parse_elf ?img ?s1 = Some ?s2" by (rule ex_parse_elf) simp_all
  have h4: "htlb_num_segs ?s2 \<noteq> 0" by simp
  have h5: "sharing ?s2 \<noteq> 0" by simp
  obtain s3 where h6: "find_or_create_share_path ?s2 = Returns (- 1) s3"
    using ex_foreign_share_path [of ?s2]
    by (auto simp: share_env_def elflink_uid_path_def ex_state_def fmt_d_1000 PATH_MAX_def)
  have h7: "(- 1 :: int) \<noteq> 0" by simp
  from share_directory_checks [of ?sa s' ?img ?s0 ?s1 ?s2 "- 1" s3 3] ok env h1 h2 h3 h4 h5 h6 h7
  have a: "\<exists>r1 r2. new_events ?sa s'
                   = [(In_find_or_create_share_path, Mkdir (share_path s') 448, r1),
                      (In_find_or_create_share_path, Lstat (share_path s'), r2)]
                \<and> S_ISDIR (st_mode r2) \<and> st_uid r2 = 1000 \<and> st_mode r2 AND (S_IWGRP OR S_IWOTH) = 0"
    and b: "share_path s' = ''/mnt/huge/elflink-uid-1000''"
    and c: "setup_elflink 3 ?img ?s0 = Returns () s3"
    and d: "sites_only {In_find_or_create_share_path} ?s0 s3"
    by (auto simp: ex_elflink_uid_path)
  from ok env a b c d show ?thesis by blast
qed

text \<open>
  The claim as stated has the owner and the permissions validated also for an explicit
  share path. With \<^verbatim>\<open>HUGETLB_SHARE_PATH\<close> set the function succeeds after the one
  test of the file system, whatever \<^verbatim>\<open>lstat\<close> would report.
\<close>

theorem share_path_override_is_not_validated:
  "\<exists>s'. find_or_create_share_path (ex_state override_env override_replies) = Returns 0 s'
      \<and> share_path s' = ''/mnt/huge/shared''
      \<and> new_events (ex_state override_env override_replies) s'
          = [(In_find_or_create_share_path, Hugetlbfs_test_path ''/mnt/huge/shared'', reply_of 0 0)]
      \<and> \<not> share_dir_validated (ex_state override_env override_replies) s'"
  by (simp add: find_or_create_share_path_def override_env_def assemble_path_def PATH_MAX_def
        Let_def split_def override_replies_def reply_of_def new_events_def share_dir_validated_def)

section \<open>Facts about the scan of the program headers\<close>

lemma find_tables_loop_terminates:
  "i \<le> k \<Longrightarrow> k \<le> INT_MAX \<Longrightarrow> d_tag (mem (dyntab + 16 * of_nat k)) = DT_NULL \<Longrightarrow>
     find_tables_loop mem dyntab i a b \<noteq> None"
proof (induction "k - i" arbitrary: i a b)
  case 0
  then have "i = k" by simp
  with 0 show ?case by (subst find_tables_loop.simps) simp
next
  case (Suc n)
  then have lt: "i < k" by simp
  with Suc.prems have bound: "i < INT_MAX" by simp
  have rec: "find_tables_loop mem dyntab (Suc i) a' b' \<noteq> None" for a' b'
    using Suc.hyps(2) lt Suc.prems by (intro Suc.hyps(1)) auto
  show ?case
    using bound rec by (subst find_tables_loop.simps) simp
qed

lemma get_extracopy_defined:
  assumes "dynamic_terminated img"
  shows "get_extracopy img mc seg (uint (e_phnum img)) \<noteq> None"
proof (cases "fst (find_dynamic (phdr img) (uint (e_phnum img)))")
  case None
  then show ?thesis by (simp add: get_extracopy_def Let_def)
next
  case (Some dyntab)
  with assms obtain k where k: "1 \<le> k" "k \<le> INT_MAX"
    "d_tag (dyn_at img (dyntab + 16 * of_nat k)) = DT_NULL"
    by (auto simp: dynamic_terminated_def)
  from find_tables_loop_terminates [of 1 k "dyn_at img" dyntab 0 0] k have "find_tables (dyn_at img) dyntab \<noteq> None"
    by (auto simp: find_tables_def split: option.splits)
  then obtain ret symtab strtab where "find_tables (dyn_at img) dyntab = Some (ret, symtab, strtab)"
    by (cases "find_tables (dyn_at img) dyntab") auto
  with Some show ?thesis
    by (simp add: get_extracopy_def Let_def split: prod.splits)
qed

lemma parse_elf_loop_count:
  assumes defined: "\<And>mc seg. get_extracopy img mc seg (uint (e_phnum img)) \<noteq> None"
  shows "htlb_num_segs s \<le> MAX_HTLB_SEGS \<Longrightarrow>
     \<exists>s'. parse_elf_loop img idx s = Some s'
        \<and> htlb_num_segs s' =
            (if htlb_num_segs s + length (filter (marked_for_hugepages img) idx) > MAX_HTLB_SEGS then 0
             else htlb_num_segs s + length (filter (marked_for_hugepages img) idx))"
proof (induction idx arbitrary: s)
  case Nil
  then show ?case by simp
next
  case (Cons i idx)
  show ?case
  proof (cases "marked_for_hugepages img i")
    case False
    then have step: "parse_elf_loop img (i # idx) s = parse_elf_loop img idx s"
      by (auto simp: marked_for_hugepages_def)
    from Cons.IH [OF Cons.prems] obtain s' where
      "parse_elf_loop img idx s = Some s'"
      "htlb_num_segs s' =
         (if htlb_num_segs s + length (filter (marked_for_hugepages img) idx) > MAX_HTLB_SEGS then 0
          else htlb_num_segs s + length (filter (marked_for_hugepages img) idx))"
      by blast
    with False show ?thesis
      unfolding step by (intro exI [of _ s']) simp
  next
    case True
    then have f: "p_type (phdr img i) = PT_LOAD" "p_flags (phdr img i) AND PF_LINUX_HUGETLB \<noteq> 0"
      by (auto simp: marked_for_hugepages_def)
    show ?thesis
    proof (cases "htlb_num_segs s \<ge> MAX_HTLB_SEGS")
      case full: True
      with f have step: "parse_elf_loop img (i # idx) s = Some (s\<lparr>htlb_num_segs := 0\<rparr>)" by simp
      from True full show ?thesis
        unfolding step by (intro exI [of _ "s\<lparr>htlb_num_segs := 0\<rparr>"]) simp
    next
      case room: False
      let ?seg = "(htlb_seg_table s ! htlb_num_segs s)
                     \<lparr>vaddr := p_vaddr (phdr img i), filesz := p_filesz (phdr img i),
                      memsz := p_memsz (phdr img i),
                      prot := (if p_flags (phdr img i) AND PF_R \<noteq> 0 then PROT_READ else 0)
                        OR (if p_flags (phdr img i) AND PF_W \<noteq> 0 then PROT_WRITE else 0)
                        OR (if p_flags (phdr img i) AND PF_X \<noteq> 0 then PROT_EXEC else 0),
                      index := i\<rparr>"
      from defined [of "minimal_copy s" ?seg] obtain seg' where
        g: "get_extracopy img (minimal_copy s) ?seg (uint (e_phnum img)) = Some seg'"
        by blast
      let ?s1 = "s\<lparr>htlb_seg_table := (htlb_seg_table s)[htlb_num_segs s := seg'],
                    htlb_num_segs := Suc (htlb_num_segs s)\<rparr>"
      from f room g have step: "parse_elf_loop img (i # idx) s = parse_elf_loop img idx ?s1"
        by (simp add: Let_def)
      from room have "htlb_num_segs ?s1 \<le> MAX_HTLB_SEGS" by simp
      from Cons.IH [OF this] obtain s' where
        "parse_elf_loop img idx ?s1 = Some s'"
        "htlb_num_segs s' =
           (if htlb_num_segs ?s1 + length (filter (marked_for_hugepages img) idx) > MAX_HTLB_SEGS then 0
            else htlb_num_segs ?s1 + length (filter (marked_for_hugepages img) idx))"
        by blast
      with True room show ?thesis
        unfolding step by (intro exI [of _ s']) simp
    qed
  qed
qed

lemma upt_0_4: "[0 ..< 4] = [0, 1, 2, 3]"
proof -
  have "[0 ..< 4] = [0 ..< Suc (Suc (Suc (Suc 0)))]" by (simp add: eval_nat_numeral)
  also have "\<dots> = [0, 1, 2, 3]" by (simp add: eval_nat_numeral)
  finally show ?thesis .
qed

lemma crowded_marked:
  "filter (marked_for_hugepages crowded_img) [0 ..< unat (e_phnum crowded_img)] = [0, 2, 3]"
proof -
  have n: "unat (e_phnum crowded_img) = 4" by (simp add: crowded_img_def)
  have m: "marked_for_hugepages crowded_img 0" "\<not> marked_for_hugepages crowded_img 1"
    "marked_for_hugepages crowded_img 2" "marked_for_hugepages crowded_img 3"
    by (simp_all add: marked_for_hugepages_def crowded_img_def crowded_phdr_def ex_phdr_def elf_consts)
  show ?thesis unfolding n upt_0_4 using m by simp
qed

lemma crowded_dynamic_terminated: "dynamic_terminated crowded_img"
proof -
  have fd: "fst (find_dynamic (phdr crowded_img) (uint (e_phnum crowded_img))) = Some 0x602000"
    by (simp add: crowded_img_def find_dynamic_def find_dynamic_loop.simps crowded_phdr_def
          ex_phdr_def elf_consts)
  have "(3::nat) \<le> INT_MAX" by (simp add: INT_MAX_def)
  moreover have "d_tag (dyn_at crowded_img (0x602000 + 16 * of_nat 3)) = DT_NULL"
    by (simp add: crowded_img_def ex_img_def ex_dyn_def)
  ultimately have "\<exists>k. 1 \<le> k \<and> k \<le> INT_MAX \<and> d_tag (dyn_at crowded_img (0x602000 + 16 * of_nat k)) = DT_NULL"
    by (intro exI [of _ 3]) simp
  with fd show ?thesis by (simp add: dynamic_terminated_def)
qed

section \<open>Claims about the orchestrator\<close>

text \<open>
  C2: when the image has more segments marked for huge pages than \<^verbatim>\<open>MAX_HTLB_SEGS\<close>
  (and its dynamic section is terminated, so that the scan of the first two runs through),
  \<^verbatim>\<open>parse_elf\<close> started on an empty table leaves the segment count at zero, and
  \<^verbatim>\<open>setup_elflink\<close> returns normally without having made a single call: nothing is
  prepared, nothing is remapped.
\<close>

theorem too_many_segments_promote_nothing:
  assumes init: "htlb_num_segs s = 0"
    and many: "length (filter (marked_for_hugepages img) [0 ..< unat (e_phnum img)]) > MAX_HTLB_SEGS"
    and dyn: "dynamic_terminated img"
  shows "(\<exists>s'. parse_elf img s = Some s' \<and> htlb_num_segs s' = 0)
       \<and> (\<exists>s'. setup_elflink budget img s = Returns () s' \<and> trace s' = trace s)"
proof -
  have parse: "\<exists>s'. parse_elf img s0 = Some s' \<and> htlb_num_segs s' = 0" if "htlb_num_segs s0 = 0" for s0
    using parse_elf_loop_count [of img s0 "[0 ..< unat (e_phnum img)]"] get_extracopy_defined [OF dyn]
      that many
    by (simp add: parse_elf_def)
  have first: "\<exists>s'. parse_elf img s = Some s' \<and> htlb_num_segs s' = 0"
    using parse init by blast
  have second: "\<exists>s'. setup_elflink budget img s = Returns () s' \<and> trace s' = trace s"
  proof (cases "executable_start img \<and> fst (check_env s) = 0")
    case False
    then show ?thesis
      by (auto simp: setup_elflink_def select_segments_def split_def)
  next
    case True
    let ?s1 = "snd (check_env s)"
    have "htlb_num_segs ?s1 = 0" using init by simp
    from parse [OF this] obtain s2 where s2: "parse_elf img ?s1 = Some s2" "htlb_num_segs s2 = 0"
      by blast
    from s2(1) have "trace s2 = trace ?s1"
      using parse_elf_loop_fields [of img "[0 ..< unat (e_phnum img)]" ?s1 s2]
      by (simp add: parse_elf_def)
    then have "trace s2 = trace s" by simp
    moreover have "setup_elflink budget img s = Returns () s2"
      using True s2 by (simp add: setup_elflink_def select_segments_def split_def)
    ultimately show ?thesis by blast
  qed
  from first second show ?thesis by blast
qed

theorem too_many_segments_witness:
  "htlb_num_segs (ex_state Map.empty quiet_replies) = 0
   \<and> filter (marked_for_hugepages crowded_img) [0 ..< unat (e_phnum crowded_img)] = [0, 2, 3]
   \<and> dynamic_terminated crowded_img
   \<and> (\<exists>s'. parse_elf crowded_img (ex_state Map.empty quiet_replies) = Some s' \<and> htlb_num_segs s' = 0)
   \<and> (\<exists>s'. setup_elflink 3 crowded_img (ex_state Map.empty quiet_replies) = Returns () s'
           \<and> trace s' = [])"
proof -
  let ?s = "ex_state Map.empty quiet_replies"
  have h1: "htlb_num_segs ?s = 0" by simp
  have h2: "length (filter (marked_for_hugepages crowded_img) [0 ..< unat (e_phnum crowded_img)])
              > MAX_HTLB_SEGS"
    by (simp add: crowded_marked MAX_HTLB_SEGS_def)
  from too_many_segments_promote_nothing [OF h1 h2 crowded_dynamic_terminated, of 3]
    h1 crowded_marked crowded_dynamic_terminated
  show ?thesis by simp
qed

section \<open>Facts about preparation and the order of the steps\<close>

lemma in_prep [simp]:
  "In_assemble_path \<in> preparation_sites" "In_find_or_create_share_path \<in> preparation_sites"
  "In_get_shared_file_name \<in> preparation_sites" "In_prepare_segment \<in> preparation_sites"
  "In_find_or_prepare_shared_file \<in> preparation_sites" "In_obtain_prepared_file \<in> preparation_sites"
  "In_remap_segments \<notin> preparation_sites" "In_unmapped_abort \<notin> preparation_sites"
  by (simp_all add: preparation_sites_def)

lemma assemble_path_sites:
  "sites_only preparation_sites s s1 \<Longrightarrow> sites_only preparation_sites s (state_of (assemble_path p s1))"
  by (simp add: assemble_path_def sites_only_sys)

lemma assemble_path_returns:
  "assemble_path p s = Returns q s' \<Longrightarrow> q = p \<and> s' = s"
  by (simp add: assemble_path_def split: if_splits)

lemma sites_only_prepare:
  "sites_only preparation_sites s s1 \<Longrightarrow>
     sites_only preparation_sites s (snd (prepare_segment seg s1))"
  by (rule prepare_segment_sites) simp_all

lemma get_shared_file_name_sites:
  "sites_only preparation_sites s (state_of (get_shared_file_name seg s))"
  by (simp add: get_shared_file_name_def Let_def split_def assemble_path_def sites_only_sys)

lemma shared_file_fail_sites:
  "sites_only preparation_sites s s1 \<Longrightarrow>
     sites_only preparation_sites s (state_of (shared_file_fail fdx fds tmp seg s1))"
  by (simp add: shared_file_fail_def Let_def sites_only_sys)

lemma shared_file_loop_sites:
  "sites_only preparation_sites s s1 \<Longrightarrow>
     sites_only preparation_sites s (state_of (shared_file_loop n seg final tmp s1))"
proof (induction n arbitrary: s1)
  case 0
  then show ?case by simp
next
  case (Suc n)
  let ?s2 = "snd (sys In_find_or_prepare_shared_file (Open_file final O_RDONLY 0)
               (snd (sys In_find_or_prepare_shared_file
                  (Open_file tmp (O_CREAT OR O_EXCL OR O_RDWR) 438) s1)))"
  have s2: "sites_only preparation_sites s ?s2"
    using Suc.prems by (simp add: sites_only_sys)
  have wait: "sites_only preparation_sites s
      (state_of (shared_file_loop n seg final tmp (snd (sys In_find_or_prepare_shared_file (Sleep 1) ?s2))))"
    by (rule Suc.IH) (simp add: s2 sites_only_sys)
  show ?case
    using s2 wait
    by (simp add: Let_def split_def sites_only_sys sites_only_prepare shared_file_fail_sites)
qed

lemma find_or_prepare_shared_file_sites:
  "sites_only preparation_sites s (state_of (find_or_prepare_shared_file budget seg s))"
  unfolding find_or_prepare_shared_file_def
proof (rule sites_only_and_then)
  show "sites_only preparation_sites s (state_of (get_shared_file_name seg s))"
    by (rule get_shared_file_name_sites)
next
  fix a s1
  show "sites_only preparation_sites s1
          (state_of ((case a of (ret, final_path) \<Rightarrow> \<lambda>s1.
               if ret < 0 then Returns (- 1, seg) s1
               else and_then (assemble_path (final_path @ ''.tmp'') s1)
                      (\<lambda>tmp_path s2. shared_file_loop budget seg final_path tmp_path s2)) s1))"
  proof (cases a)
    case (Pair ret final_path)
    show ?thesis
    proof (cases "ret < 0")
      case True
      with Pair show ?thesis by simp
    next
      case False
      have "sites_only preparation_sites s1
              (state_of (and_then (assemble_path (final_path @ ''.tmp'') s1)
                      (\<lambda>tmp_path s2. shared_file_loop budget seg final_path tmp_path s2)))"
        by (rule sites_only_and_then) (simp_all add: assemble_path_sites shared_file_loop_sites)
      with Pair False show ?thesis by simp
    qed
  qed
qed

lemma unlinked_file_sites:
  "sites_only preparation_sites s s1 \<Longrightarrow>
     sites_only preparation_sites s (state_of (unlinked_file seg s1))"
  by (simp add: unlinked_file_def Let_def split_def sites_only_sys sites_only_prepare)

lemma unlinked_file_result:
  "unlinked_file seg s = Returns (r, seg') s' \<Longrightarrow> r = 0 \<or> r = - 1"
  by (auto simp: unlinked_file_def Let_def split_def split: if_splits)

lemma obtain_prepared_file_sites:
  "sites_only preparation_sites s (state_of (obtain_prepared_file budget seg s))"
proof (cases "sharing s \<noteq> 0 \<and> prot seg AND PROT_WRITE = 0")
  case False
  then show ?thesis by (auto simp: obtain_prepared_file_def unlinked_file_sites)
next
  case True
  have "sites_only preparation_sites s
          (state_of (and_then (find_or_prepare_shared_file budget seg s)
             (\<lambda>(ret, seg') s1. if ret = 0 then Returns (0, seg') s1 else unlinked_file seg' s1)))"
    by (rule sites_only_and_then)
       (auto simp: find_or_prepare_shared_file_sites unlinked_file_sites)
  with True show ?thesis by (simp add: obtain_prepared_file_def)
qed

lemma obtain_prepared_file_result:
  assumes "obtain_prepared_file budget seg s = Returns (r, seg') s'"
  shows "r = 0 \<or> r = - 1"
proof (cases "sharing s \<noteq> 0 \<and> prot seg AND PROT_WRITE = 0")
  case False
  with assms show ?thesis by (auto simp: obtain_prepared_file_def dest: unlinked_file_result)
next
  case True
  with assms have a: "and_then (find_or_prepare_shared_file budget seg s)
             (\<lambda>(ret, seg') s1. if ret = 0 then Returns (0, seg') s1 else unlinked_file seg' s1)
           = Returns (r, seg') s'"
    by (simp add: obtain_prepared_file_def)
  then show ?thesis
    by (cases "find_or_prepare_shared_file budget seg s")
       (auto split: if_splits dest: unlinked_file_result)
qed

lemma obtain_all_sites:
  "sites_only preparation_sites s (state_of (obtain_all budget idx s))"
proof (induction idx arbitrary: s)
  case Nil
  show ?case by simp
next
  case (Cons i idx)
  have "sites_only preparation_sites s
          (state_of (and_then (obtain_prepared_file budget (htlb_seg_table s ! i) s)
             (\<lambda>(ret, seg') s1.
                if ret < 0 then Returns ret (s1\<lparr>htlb_seg_table := (htlb_seg_table s1)[i := seg']\<rparr>)
                else obtain_all budget idx (s1\<lparr>htlb_seg_table := (htlb_seg_table s1)[i := seg']\<rparr>))))"
  proof (rule sites_only_and_then)
    show "sites_only preparation_sites s (state_of (obtain_prepared_file budget (htlb_seg_table s ! i) s))"
      by (rule obtain_prepared_file_sites)
  next
    fix a s1
    obtain ret :: int and seg' :: seg_info where a: "a = (ret, seg')" by (cases a)
    have "sites_only preparation_sites s1
            (state_of (obtain_all budget idx (s1\<lparr>htlb_seg_table := (htlb_seg_table s1)[i := seg']\<rparr>)))"
      using Cons.IH [of "s1\<lparr>htlb_seg_table := (htlb_seg_table s1)[i := seg']\<rparr>"] by simp
    then show "sites_only preparation_sites s1
            (state_of ((case a of (ret, seg') \<Rightarrow> \<lambda>s1.
                if ret < 0 then Returns ret (s1\<lparr>htlb_seg_table := (htlb_seg_table s1)[i := seg']\<rparr>)
                else obtain_all budget idx (s1\<lparr>htlb_seg_table := (htlb_seg_table s1)[i := seg']\<rparr>)) s1))"
      by (simp add: a)
  qed
  then show ?case by simp
qed

lemma obtain_all_prepared:
  "obtain_all budget [i ..< n] s = Returns r s' \<Longrightarrow> 0 \<le> r \<Longrightarrow>
   prepared_through budget s0 i s \<Longrightarrow> i \<le> n \<Longrightarrow> prepared_through budget s0 n s'"
proof (induction "n - i" arbitrary: i s)
  case 0
  then show ?case by simp
next
  case (Suc m)
  then have lt: "i < n" by simp
  then have upt: "[i ..< n] = i # [Suc i ..< n]" by (rule upt_conv_Cons)
  show ?case
  proof (cases "obtain_prepared_file budget (htlb_seg_table s ! i) s")
    case (Returns a s1)
    obtain ret :: int and seg' :: seg_info where a: "a = (ret, seg')" by (cases a)
    let ?s2 = "s1\<lparr>htlb_seg_table := (htlb_seg_table s1)[i := seg']\<rparr>"
    from Returns a have ob: "obtain_prepared_file budget (htlb_seg_table s ! i) s = Returns (ret, seg') s1"
      by simp
    from obtain_prepared_file_result [OF ob] have rr: "ret = 0 \<or> ret = - 1" .
    show ?thesis
    proof (cases "ret < 0")
      case True
      with Suc.prems(1,2) ob upt show ?thesis by (simp add: ob)
    next
      case False
      with rr have r0: "ret = 0" by auto
      from Suc.prems(1) False upt have rest: "obtain_all budget [Suc i ..< n] ?s2 = Returns r s'"
        by (simp add: ob)
      from Suc.prems(3) ob r0 have pt: "prepared_through budget s0 (Suc i) ?s2"
        by (auto intro: prepared_through.one_more)
      from Suc.hyps(2) have "m = n - Suc i" by simp
      from Suc.hyps(1) [OF this rest Suc.prems(2) pt] lt show ?thesis by simp
    qed
  next
    case (Terminated s1)
    with Suc.prems(1) upt show ?thesis by simp
  next
    case (Waiting s1)
    with Suc.prems(1) upt show ?thesis by simp
  next
    case (Undefined s1)
    with Suc.prems(1) upt show ?thesis by simp
  qed
qed

lemma obtain_all_from_prepared:
  "prepared_through budget s0 k sk \<Longrightarrow> k \<le> n \<Longrightarrow>
     obtain_all budget [0 ..< n] s0 = obtain_all budget [k ..< n] sk"
proof (induction rule: prepared_through.induct)
  case none_yet
  show ?case by simp
next
  case (one_more i s seg' s1)
  then have lt: "i < n" by simp
  then have upt: "[i ..< n] = i # [Suc i ..< n]" by (rule upt_conv_Cons)
  from one_more.IH lt have "obtain_all budget [0 ..< n] s0 = obtain_all budget [i ..< n] s" by simp
  also have "\<dots> = obtain_all budget [Suc i ..< n] (s1\<lparr>htlb_seg_table := (htlb_seg_table s1)[i := seg']\<rparr>)"
    unfolding upt by (simp add: one_more.hyps(2))
  finally show ?case .
qed

lemma select_segments_sites:
  "sites_only preparation_sites s (state_of (select_segments img s))"
proof (cases "executable_start img \<and> fst (check_env s) = 0")
  case False
  then show ?thesis
    by (auto simp: select_segments_def split_def sites_only_def)
next
  case True
  let ?s1 = "snd (check_env s)"
  have t1: "trace ?s1 = trace s" by simp
  show ?thesis
  proof (cases "parse_elf img ?s1")
    case None
    with True show ?thesis
      by (simp add: select_segments_def split_def sites_only_def)
  next
    case (Some s2)
    then have t2: "trace s2 = trace s"
      using parse_elf_loop_fields [of img "[0 ..< unat (e_phnum img)]" ?s1 s2]
      by (simp add: parse_elf_def)
    show ?thesis
    proof (cases "htlb_num_segs s2 \<noteq> 0 \<and> sharing s2 \<noteq> 0")
      case False
      with True Some t2 show ?thesis
        by (auto simp: select_segments_def split_def sites_only_def)
    next
      case sh: True
      have "sites_only preparation_sites s2 (state_of (find_or_create_share_path s2))"
      proof (cases "find_or_create_share_path s2")
        case (Returns r s3)
        from find_or_create_share_path_sites [OF this] Returns show ?thesis
          by (auto intro: sites_only_mono)
      next
        case (Terminated s3)
        then show ?thesis
          by (auto simp: find_or_create_share_path_def Let_def split_def assemble_path_def
                sites_only_sys split: option.splits if_splits)
      next
        case (Waiting s3)
        then show ?thesis
          by (auto simp: find_or_create_share_path_def Let_def split_def assemble_path_def
                split: option.splits if_splits)
      next
        case (Undefined s3)
        then show ?thesis
          by (auto simp: find_or_create_share_path_def Let_def split_def assemble_path_def
                split: option.splits if_splits)
      qed
      then have "sites_only preparation_sites s2
                   (state_of (and_then (find_or_create_share_path s2) (\<lambda>ret s3. Returns (ret = 0) s3)))"
        by (cases "find_or_create_share_path s2") auto
      then have "sites_only preparation_sites s
                   (state_of (and_then (find_or_create_share_path s2) (\<lambda>ret s3. Returns (ret = 0) s3)))"
        using t2 by (simp add: sites_only_def)
      with True Some sh show ?thesis
        by (simp add: select_segments_def split_def)
    qed
  qed
qed

lemma remap_segments_sites:
  "sites_only {In_remap_segments, In_unmapped_abort} s (state_of (remap_segments seg num s))"
proof -
  let ?W = "{In_remap_segments, In_unmapped_abort}"
  let ?s1 = "snd (sys In_remap_segments (Mmap 0 0 0 0 0 0) s)"
  let ?s2 = "unmap_all seg [0 ..< num] ?s1"
  have out: "remap_segments seg num s = remap_all seg [0 ..< num] ?s2"
    by (simp add: remap_segments_def Let_def)
  obtain us where us: "trace ?s2 = trace ?s1 @ us" "list_all (\<lambda>e. fst e = In_remap_segments) us"
    using unmap_all_trace by blast
  have "trace ?s2 = trace s @ (In_remap_segments, Mmap 0 0 0 0 0 0, reply_at s (length (trace s))) # us"
    by (simp add: us(1))
  moreover have "list_all (\<lambda>e. fst e \<in> ?W)
                   ((In_remap_segments, Mmap 0 0 0 0 0 0, reply_at s (length (trace s))) # us)"
    using us(2) by (auto simp: list_all_iff)
  ultimately have "sites_only ?W s ?s2" unfolding sites_only_def by blast
  moreover have "sites_only ?W ?s2 (state_of (remap_all seg [0 ..< num] ?s2))"
    by (rule remap_all_sites)
  ultimately show ?thesis unfolding out by (rule sites_only_trans)
qed

lemma no_remap_events:
  assumes "sites_only preparation_sites s s'"
  shows "\<forall>e\<in>set (new_events s s'). \<not> remap_event e"
proof
  fix e assume e: "e \<in> set (new_events s s')"
  from assms obtain evs where "trace s' = trace s @ evs" "list_all (\<lambda>e. fst e \<in> preparation_sites) evs"
    unfolding sites_only_def by blast
  with e have "fst e \<in> preparation_sites" by (auto simp: new_events_def list_all_iff)
  then show "\<not> remap_event e" by (auto simp: remap_event_def)
qed

lemma only_remap_events:
  "sites_only {In_remap_segments, In_unmapped_abort} s s' \<Longrightarrow> \<forall>e\<in>set (new_events s s'). remap_event e"
  by (auto simp: sites_only_def new_events_def remap_event_def list_all_iff)

lemma setup_elflink_cases:
  "sites_only preparation_sites s (state_of (setup_elflink budget img s))
   \<or> (\<exists>s3 s4. select_segments img s = Returns True s3
          \<and> prepared_through budget s3 (htlb_num_segs s3) s4
          \<and> sites_only preparation_sites s s4
          \<and> setup_elflink budget img s = remap_segments (htlb_seg_table s4) (htlb_num_segs s4) s4)"
proof (cases "select_segments img s")
  case (Returns go s3)
  have q3: "sites_only preparation_sites s s3"
    using select_segments_sites [of s img] Returns by simp
  show ?thesis
  proof (cases go)
    case False
    with Returns q3 show ?thesis by (simp add: setup_elflink_def)
  next
    case True
    let ?n = "htlb_num_segs s3"
    have qa: "sites_only preparation_sites s3 (state_of (obtain_all budget [0 ..< ?n] s3))"
      by (rule obtain_all_sites)
    show ?thesis
    proof (cases "obtain_all budget [0 ..< ?n] s3")
      case (Returns r s4)
      with qa q3 have q4: "sites_only preparation_sites s s4"
        by (auto intro: sites_only_trans)
      show ?thesis
      proof (cases "r < 0")
        case neg: True
        with Returns True \<open>select_segments img s = Returns go s3\<close> q4 show ?thesis
          by (simp add: setup_elflink_def)
      next
        case False
        then have "0 \<le> r" by simp
        from obtain_all_prepared [OF Returns this prepared_through.none_yet]
        have "prepared_through budget s3 ?n s4" by simp
        moreover have "setup_elflink budget img s
                         = remap_segments (htlb_seg_table s4) (htlb_num_segs s4) s4"
          using Returns True False \<open>select_segments img s = Returns go s3\<close>
          by (simp add: setup_elflink_def)
        moreover have "select_segments img s = Returns True s3"
          using True \<open>select_segments img s = Returns go s3\<close> by simp
        ultimately show ?thesis
          using q4 by blast
      qed
    next
      case (Terminated s4)
      with qa q3 True \<open>select_segments img s = Returns go s3\<close> show ?thesis
        by (auto simp: setup_elflink_def intro: sites_only_trans)
    next
      case (Waiting s4)
      with qa q3 True \<open>select_segments img s = Returns go s3\<close> show ?thesis
        by (auto simp: setup_elflink_def intro: sites_only_trans)
    next
      case (Undefined s4)
      with qa q3 True \<open>select_segments img s = Returns go s3\<close> show ?thesis
        by (auto simp: setup_elflink_def intro: sites_only_trans)
    qed
  qed
next
  case (Terminated s3)
  with select_segments_sites [of s img] show ?thesis by (simp add: setup_elflink_def)
next
  case (Waiting s3)
  with select_segments_sites [of s img] show ?thesis by (simp add: setup_elflink_def)
next
  case (Undefined s3)
  with select_segments_sites [of s img] show ?thesis by (simp add: setup_elflink_def)
qed

lemma shared_file_loop_descriptor:
  "shared_file_loop n seg final_path tmp_path s = Returns (ret, seg') s1 \<Longrightarrow>
     seg' = seg\<lparr>fd := fd seg'\<rparr> \<and> (ret = 0 \<longrightarrow> 0 \<le> fd seg')"
proof (induction n arbitrary: s)
  case 0
  then show ?case by simp
next
  case (Suc n)
  then show ?case
    by (auto simp: Let_def split_def shared_file_fail_def split: if_splits)
qed

lemma unlinked_file_descriptor:
  "unlinked_file seg s = Returns (ret, seg') s1 \<Longrightarrow>
     seg' = seg\<lparr>fd := fd seg'\<rparr> \<and> (ret = 0 \<longrightarrow> 0 \<le> fd seg')"
  by (auto simp: unlinked_file_def Let_def split_def split: if_splits)

lemma find_or_prepare_shared_file_descriptor:
  assumes "find_or_prepare_shared_file budget seg s = Returns (ret, seg') s1"
  shows "seg' = seg\<lparr>fd := fd seg'\<rparr> \<and> (ret = 0 \<longrightarrow> 0 \<le> fd seg')"
proof (cases "get_shared_file_name seg s")
  case (Returns a s2)
  obtain r :: int and final_path :: string where a: "a = (r, final_path)" by (cases a)
  show ?thesis
  proof (cases "r < 0")
    case True
    with assms Returns a show ?thesis by (auto simp: find_or_prepare_shared_file_def)
  next
    case False
    show ?thesis
    proof (cases "assemble_path (final_path @ ''.tmp'') s2")
      case (Returns tmp_path s3)
      with assms \<open>get_shared_file_name seg s = Returns a s2\<close> a False
      have "shared_file_loop budget seg final_path tmp_path s3 = Returns (ret, seg') s1"
        by (simp add: find_or_prepare_shared_file_def)
      then show ?thesis by (rule shared_file_loop_descriptor)
    qed (use assms \<open>get_shared_file_name seg s = Returns a s2\<close> a False
          in \<open>simp_all add: find_or_prepare_shared_file_def\<close>)
  qed
qed (use assms in \<open>simp_all add: find_or_prepare_shared_file_def\<close>)

lemma obtain_prepared_file_descriptor:
  assumes "obtain_prepared_file budget seg s = Returns (0, seg') s1"
  shows "seg' = seg\<lparr>fd := fd seg'\<rparr> \<and> 0 \<le> fd seg'"
proof (cases "sharing s \<noteq> 0 \<and> prot seg AND PROT_WRITE = 0")
  case False
  with assms show ?thesis by (auto simp: obtain_prepared_file_def dest: unlinked_file_descriptor)
next
  case True
  with assms have a: "and_then (find_or_prepare_shared_file budget seg s)
             (\<lambda>(ret, seg') s1. if ret = 0 then Returns (0, seg') s1 else unlinked_file seg' s1)
           = Returns (0, seg') s1"
    by (simp add: obtain_prepared_file_def)
  show ?thesis
  proof (cases "find_or_prepare_shared_file budget seg s")
    case (Returns b s2)
    obtain r :: int and seg2 :: seg_info where b: "b = (r, seg2)" by (cases b)
    from Returns b have f: "find_or_prepare_shared_file budget seg s = Returns (r, seg2) s2" by simp
    note d = find_or_prepare_shared_file_descriptor [OF f]
    show ?thesis
    proof (cases "r = 0")
      case True
      with a f d show ?thesis by simp
    next
      case False
      with a f have "unlinked_file seg2 s2 = Returns (0, seg') s1" by simp
      from unlinked_file_descriptor [OF this] d have "seg' = seg2\<lparr>fd := fd seg'\<rparr>" "0 \<le> fd seg'"
        "seg2 = seg\<lparr>fd := fd seg2\<rparr>" by simp_all
      then show ?thesis by (metis seg_info.update_convs(7) seg_info.surjective seg_info.simps)
    qed
  qed (use a in simp_all)
qed

subsection \<open>Two runs of the constructor on the example image\<close>

lemma unlinked_file_ok:
  assumes "0 \<le> rv (reply_at s (length (trace s)))"
    and "(word_of_int (rv (reply_at s (Suc (length (trace s))))) :: 64 word) \<noteq> MAP_FAILED"
  shows "\<exists>s1. unlinked_file seg s = Returns (0, seg\<lparr>fd := rv (reply_at s (length (trace s)))\<rparr>) s1
       \<and> reply_at s1 = reply_at s \<and> sharing s1 = sharing s
       \<and> htlb_seg_table s1 = htlb_seg_table s \<and> htlb_num_segs s1 = htlb_num_segs s
       \<and> gethugepagesize s1 = gethugepagesize s
       \<and> length (trace s1) = length (trace s) + (if extra_vaddr seg \<noteq> 0 then 5 else 4)"
  using assms by (simp add: unlinked_file_def prepare_segment_def Let_def split_def)

lemma unlinked_file_no_descriptor:
  assumes "rv (reply_at s (length (trace s))) < 0"
  shows "unlinked_file seg s
           = Returns (- 1, seg) (snd (sys In_obtain_prepared_file Hugetlbfs_unlinked_fd s))"
  using assms by (simp add: unlinked_file_def Let_def split_def)

lemma ex_check_env_empty:
  "check_env (ex_state Map.empty replies) = (0, (ex_state Map.empty replies)\<lparr>sharing := 0\<rparr>)"
  by (simp add: check_env_def Let_def ex_state_def)

lemma ex_select_segments:
  "select_segments (ex_img 0x11 0x400230 0) (ex_state Map.empty replies)
     = Returns True
         ((ex_state Map.empty replies)
            \<lparr>sharing := 0,
             htlb_seg_table := [ex_text_seg, ex_seg\<lparr>extra_vaddr := 0x603100, extrasz := 0x80\<rparr>],
             htlb_num_segs := 2\<rparr>)"
proof -
  let ?s1 = "(ex_state Map.empty replies)\<lparr>sharing := 0\<rparr>"
  have p: "parse_elf (ex_img 0x11 0x400230 0) ?s1
      = Some (?s1\<lparr>htlb_seg_table := [ex_text_seg, ex_seg\<lparr>extra_vaddr := 0x603100, extrasz := 0x80\<rparr>],
                   htlb_num_segs := 2\<rparr>)"
    by (rule ex_parse_elf) simp_all
  show ?thesis
    by (simp add: select_segments_def ex_check_env_empty p) (simp add: ex_img_def)
qed

lemma remap_segments_first_event:
  "\<exists>rest. new_events s (state_of (remap_segments seg num s))
      = (In_remap_segments, Mmap 0 0 0 0 0 0, reply_at s (length (trace s))) # rest"
proof -
  let ?s1 = "snd (sys In_remap_segments (Mmap 0 0 0 0 0 0) s)"
  let ?s2 = "unmap_all seg [0 ..< num] ?s1"
  have out: "remap_segments seg num s = remap_all seg [0 ..< num] ?s2"
    by (simp add: remap_segments_def Let_def)
  obtain us where us: "trace ?s2 = trace ?s1 @ us"
    using unmap_all_trace by blast
  obtain ys where ys: "trace (state_of (remap_all seg [0 ..< num] ?s2)) = trace ?s2 @ ys"
    using sites_only_extends [OF remap_all_sites] by blast
  show ?thesis
    by (simp add: out ys us new_events_def)
qed

lemma ex_reply_simps [simp]:
  "rv (reply_of v e) = v"
  by (simp add: reply_of_def)

lemma obtain_first_segment:
  assumes r: "reply_at s = replies" and t: "trace s = []" and sh: "sharing s = 0"
    and tb: "htlb_seg_table s = [ex_text_seg, seg]"
    and r0: "replies 0 = reply_of 3 0" and r1: "replies (Suc 0) = reply_of 0x7f0000000000 0"
  shows "\<exists>s1. obtain_prepared_file budget (htlb_seg_table s ! 0) s
                 = Returns (0, ex_text_seg\<lparr>fd := 3\<rparr>) s1
       \<and> reply_at s1 = replies \<and> sharing s1 = 0
       \<and> htlb_seg_table s1 = [ex_text_seg, seg] \<and> htlb_num_segs s1 = htlb_num_segs s
       \<and> gethugepagesize s1 = gethugepagesize s
       \<and> length (trace s1) = 4"
proof -
  have a: "0 \<le> rv (reply_at s (length (trace s)))" by (simp add: r t r0)
  have b: "(word_of_int (rv (reply_at s (Suc (length (trace s))))) :: 64 word) \<noteq> MAP_FAILED"
    by (simp add: r t r1 MAP_FAILED_def)
  from unlinked_file_ok [OF a b, of ex_text_seg] show ?thesis
    by (simp add: obtain_prepared_file_def sh tb r t r0 ex_text_seg_def)
qed

lemma obtain_second_segment:
  assumes r: "reply_at s = replies" and t: "length (trace s) = 4" and sh: "sharing s = 0"
    and tb: "htlb_seg_table s = [a, seg]" and ex: "extra_vaddr seg \<noteq> 0"
    and r4: "replies 4 = reply_of 4 0" and r5: "replies 5 = reply_of 0x7f0000000000 0"
  shows "\<exists>s1. obtain_prepared_file budget (htlb_seg_table s ! 1) s
                 = Returns (0, seg\<lparr>fd := 4\<rparr>) s1
       \<and> reply_at s1 = replies \<and> sharing s1 = 0
       \<and> htlb_seg_table s1 = [a, seg] \<and> htlb_num_segs s1 = htlb_num_segs s
       \<and> gethugepagesize s1 = gethugepagesize s
       \<and> length (trace s1) = 9"
proof -
  have a: "0 \<le> rv (reply_at s (length (trace s)))" by (simp add: r t r4)
  have b: "(word_of_int (rv (reply_at s (Suc (length (trace s))))) :: 64 word) \<noteq> MAP_FAILED"
    by (simp add: r t r5 MAP_FAILED_def)
  from unlinked_file_ok [OF a b, of seg] show ?thesis
    by (simp add: obtain_prepared_file_def sh tb r t r4 ex)
qed

lemma obtain_second_segment_fails:
  assumes r: "reply_at s = replies" and t: "length (trace s) = 4" and sh: "sharing s = 0"
    and tb: "htlb_seg_table s = [a, seg]"
    and r4: "replies 4 = reply_of (- 1) 24"
  shows "obtain_prepared_file budget (htlb_seg_table s ! 1) s
           = Returns (- 1, seg) (snd (sys In_obtain_prepared_file Hugetlbfs_unlinked_fd s))"
proof -
  have a: "rv (reply_at s (length (trace s))) < 0" by (simp add: r t r4)
  from unlinked_file_no_descriptor [OF a, of seg] show ?thesis
    by (simp add: obtain_prepared_file_def sh tb)
qed

text \<open>
  C1: in every run of \<^verbatim>\<open>setup_elflink\<close>, if the remap engine makes any call at all
  (the calls of \<^verbatim>\<open>remap_segments\<close>, its unmapping loop included, and of the abort path),
  then the selection of segments went on to Step 1, every selected segment
  \<open>0, \<dots>, htlb_num_segs - 1\<close> was given a prepared file by \<^verbatim>\<open>obtain_prepared_file\<close>
  returning 0, no call of the remap engine was made up to that point, and the rest of
  the run is \<^verbatim>\<open>remap_segments\<close> on the table so prepared, making calls of the remap
  engine only. And if, after the segments \<open>0, \<dots>, k - 1\<close> have been prepared,
  \<^verbatim>\<open>obtain_prepared_file\<close> returns a negative value for segment \<open>k\<close>, then
  \<^verbatim>\<open>setup_elflink\<close> returns and the run contains no call of the remap engine.
\<close>

theorem remap_only_after_all_segments_prepared:
  "((\<exists>e\<in>set (new_events s (state_of (setup_elflink budget img s))). remap_event e) \<longrightarrow>
      (\<exists>s3 s4. select_segments img s = Returns True s3
           \<and> prepared_through budget s3 (htlb_num_segs s3) s4
           \<and> (\<forall>e\<in>set (new_events s s4). \<not> remap_event e)
           \<and> setup_elflink budget img s = remap_segments (htlb_seg_table s4) (htlb_num_segs s4) s4
           \<and> (\<forall>e\<in>set (new_events s4 (state_of (setup_elflink budget img s))). remap_event e)))
   \<and> (select_segments img s = Returns True s3 \<and> k < htlb_num_segs s3
        \<and> prepared_through budget s3 k sk
        \<and> obtain_prepared_file budget (htlb_seg_table sk ! k) sk = Returns (r, seg') s' \<and> r < 0 \<longrightarrow>
        (\<exists>s5. setup_elflink budget img s = Returns () s5
            \<and> (\<forall>e\<in>set (new_events s s5). \<not> remap_event e)))"
proof (intro conjI impI)
  assume ev: "\<exists>e\<in>set (new_events s (state_of (setup_elflink budget img s))). remap_event e"
  from setup_elflink_cases [of s budget img]
  show "\<exists>s3 s4. select_segments img s = Returns True s3
           \<and> prepared_through budget s3 (htlb_num_segs s3) s4
           \<and> (\<forall>e\<in>set (new_events s s4). \<not> remap_event e)
           \<and> setup_elflink budget img s = remap_segments (htlb_seg_table s4) (htlb_num_segs s4) s4
           \<and> (\<forall>e\<in>set (new_events s4 (state_of (setup_elflink budget img s))). remap_event e)"
  proof
    assume "sites_only preparation_sites s (state_of (setup_elflink budget img s))"
    from no_remap_events [OF this] ev show ?thesis by blast
  next
    assume "\<exists>s3 s4. select_segments img s = Returns True s3
          \<and> prepared_through budget s3 (htlb_num_segs s3) s4
          \<and> sites_only preparation_sites s s4
          \<and> setup_elflink budget img s = remap_segments (htlb_seg_table s4) (htlb_num_segs s4) s4"
    then obtain s3 s4 where a: "select_segments img s = Returns True s3"
      "prepared_through budget s3 (htlb_num_segs s3) s4"
      "sites_only preparation_sites s s4"
      "setup_elflink budget img s = remap_segments (htlb_seg_table s4) (htlb_num_segs s4) s4"
      by blast
    have "\<forall>e\<in>set (new_events s4 (state_of (setup_elflink budget img s))). remap_event e"
      unfolding a(4) by (rule only_remap_events) (rule remap_segments_sites)
    with a no_remap_events [OF a(3)] show ?thesis by blast
  qed
next
  assume b: "select_segments img s = Returns True s3 \<and> k < htlb_num_segs s3
        \<and> prepared_through budget s3 k sk
        \<and> obtain_prepared_file budget (htlb_seg_table sk ! k) sk = Returns (r, seg') s' \<and> r < 0"
  let ?n = "htlb_num_segs s3"
  let ?s5 = "s'\<lparr>htlb_seg_table := (htlb_seg_table s')[k := seg']\<rparr>"
  from b have upt: "[k ..< ?n] = k # [Suc k ..< ?n]" by (simp add: upt_conv_Cons)
  from b have "obtain_all budget [0 ..< ?n] s3 = obtain_all budget [k ..< ?n] sk"
    by (intro obtain_all_from_prepared) auto
  also have "\<dots> = Returns r ?s5"
    unfolding upt using b by simp
  finally have oa: "obtain_all budget [0 ..< ?n] s3 = Returns r ?s5" .
  with b have out: "setup_elflink budget img s = Returns () ?s5"
    by (simp add: setup_elflink_def)
  have "sites_only preparation_sites s s3"
    using select_segments_sites [of s img] b by simp
  moreover have "sites_only preparation_sites s3 ?s5"
    using obtain_all_sites [of s3 budget "[0 ..< ?n]"] oa by simp
  ultimately have "sites_only preparation_sites s ?s5" by (rule sites_only_trans)
  from no_remap_events [OF this] out
  show "\<exists>s5. setup_elflink budget img s = Returns () s5
            \<and> (\<forall>e\<in>set (new_events s s5). \<not> remap_event e)"
    by blast
qed

theorem remap_only_after_all_segments_prepared_witness:
  "(\<exists>e\<in>set (new_events (ex_state Map.empty full_run_replies)
                (state_of (setup_elflink 3 (ex_img 0x11 0x400230 0)
                             (ex_state Map.empty full_run_replies)))). remap_event e)
   \<and> (\<exists>s3 s4. select_segments (ex_img 0x11 0x400230 0) (ex_state Map.empty full_run_replies)
                  = Returns True s3
          \<and> htlb_num_segs s3 = 2
          \<and> prepared_through 3 s3 (htlb_num_segs s3) s4
          \<and> (\<forall>e\<in>set (new_events (ex_state Map.empty full_run_replies) s4). \<not> remap_event e)
          \<and> setup_elflink 3 (ex_img 0x11 0x400230 0) (ex_state Map.empty full_run_replies)
              = remap_segments (htlb_seg_table s4) (htlb_num_segs s4) s4
          \<and> (\<forall>e\<in>set (new_events s4
                        (state_of (setup_elflink 3 (ex_img 0x11 0x400230 0)
                                     (ex_state Map.empty full_run_replies)))). remap_event e))
   \<and> (\<exists>s3 sk seg' s'.
          select_segments (ex_img 0x11 0x400230 0) (ex_state Map.empty second_fails_replies)
            = Returns True s3
        \<and> 1 < htlb_num_segs s3
        \<and> prepared_through 3 s3 1 sk
        \<and> obtain_prepared_file 3 (htlb_seg_table sk ! 1) sk = Returns (- 1, seg') s')
   \<and> (\<exists>s5. setup_elflink 3 (ex_img 0x11 0x400230 0) (ex_state Map.empty second_fails_replies)
              = Returns () s5
          \<and> (\<forall>e\<in>set (new_events (ex_state Map.empty second_fails_replies) s5).
                \<not> remap_event e))"
proof -
  let ?img = "ex_img 0x11 0x400230 0"
  let ?data = "ex_seg\<lparr>extra_vaddr := 0x603100, extrasz := 0x80\<rparr>"
  let ?sA = "ex_state Map.empty full_run_replies"
  let ?sB = "ex_state Map.empty second_fails_replies"
  let ?a3 = "?sA\<lparr>sharing := 0, htlb_seg_table := [ex_text_seg, ?data], htlb_num_segs := 2\<rparr>"
  let ?b3 = "?sB\<lparr>sharing := 0, htlb_seg_table := [ex_text_seg, ?data], htlb_num_segs := 2\<rparr>"
  have selA: "select_segments ?img ?sA = Returns True ?a3" by (rule ex_select_segments)
  have selB: "select_segments ?img ?sB = Returns True ?b3" by (rule ex_select_segments)
  have ex: "extra_vaddr ?data \<noteq> 0" by simp

  \<comment> \<open>the run in which both segments are prepared\<close>
  obtain a1 where a1: "obtain_prepared_file 3 (htlb_seg_table ?a3 ! 0) ?a3
                         = Returns (0, ex_text_seg\<lparr>fd := 3\<rparr>) a1"
      "reply_at a1 = full_run_replies" "sharing a1 = 0" "htlb_seg_table a1 = [ex_text_seg, ?data]"
      "htlb_num_segs a1 = 2" "length (trace a1) = 4"
    using obtain_first_segment [of ?a3 full_run_replies ?data 3]
    by (auto simp: full_run_replies_def)
  let ?a2 = "a1\<lparr>htlb_seg_table := (htlb_seg_table a1)[0 := ex_text_seg\<lparr>fd := 3\<rparr>]\<rparr>"
  obtain a5 where a5: "obtain_prepared_file 3 (htlb_seg_table ?a2 ! 1) ?a2
                         = Returns (0, ?data\<lparr>fd := 4\<rparr>) a5"
      "htlb_num_segs a5 = 2"
    using obtain_second_segment [of ?a2 full_run_replies "ex_text_seg\<lparr>fd := 3\<rparr>" ?data 3] a1(2-6)
    by (auto simp: full_run_replies_def)
  let ?a4 = "a5\<lparr>htlb_seg_table := (htlb_seg_table a5)[1 := ?data\<lparr>fd := 4\<rparr>]\<rparr>"
  have allA: "obtain_all 3 [0 ..< 2] ?a3 = Returns 0 ?a4"
    using a1(1) a5(1) by (simp add: upt_0_2)
  have runA: "setup_elflink 3 ?img ?sA = remap_segments (htlb_seg_table ?a4) (htlb_num_segs ?a4) ?a4"
    by (simp add: setup_elflink_def selA allA)
  obtain rest where rest: "new_events ?a4 (state_of (remap_segments (htlb_seg_table ?a4) (htlb_num_segs ?a4) ?a4))
      = (In_remap_segments, Mmap 0 0 0 0 0 0, reply_at ?a4 (length (trace ?a4))) # rest"
    using remap_segments_first_event by blast
  have sitesA: "sites_only {In_remap_segments, In_unmapped_abort} ?a4
                  (state_of (remap_segments (htlb_seg_table ?a4) (htlb_num_segs ?a4) ?a4))"
    by (rule remap_segments_sites)
  then obtain evs where evs: "trace (state_of (remap_segments (htlb_seg_table ?a4) (htlb_num_segs ?a4) ?a4))
       = trace ?a4 @ evs"
    unfolding sites_only_def by blast
  with rest have evs_eq: "evs = (In_remap_segments, Mmap 0 0 0 0 0 0, reply_at ?a4 (length (trace ?a4))) # rest"
    by (simp add: new_events_def)
  have premA: "\<exists>e\<in>set (new_events ?sA (state_of (setup_elflink 3 ?img ?sA))). remap_event e"
    unfolding runA new_events_def evs evs_eq
    by (simp add: remap_event_def)

  \<comment> \<open>the run in which the second segment gets no descriptor\<close>
  obtain b1 where b1: "obtain_prepared_file 3 (htlb_seg_table ?b3 ! 0) ?b3
                         = Returns (0, ex_text_seg\<lparr>fd := 3\<rparr>) b1"
      "reply_at b1 = second_fails_replies" "sharing b1 = 0" "htlb_seg_table b1 = [ex_text_seg, ?data]"
      "htlb_num_segs b1 = 2" "length (trace b1) = 4"
    using obtain_first_segment [of ?b3 second_fails_replies ?data 3]
    by (auto simp: second_fails_replies_def)
  let ?b2 = "b1\<lparr>htlb_seg_table := (htlb_seg_table b1)[0 := ex_text_seg\<lparr>fd := 3\<rparr>]\<rparr>"
  let ?b5 = "snd (sys In_obtain_prepared_file Hugetlbfs_unlinked_fd ?b2)"
  have b5: "obtain_prepared_file 3 (htlb_seg_table ?b2 ! 1) ?b2 = Returns (- 1, ?data) ?b5"
    using obtain_second_segment_fails [of ?b2 second_fails_replies "ex_text_seg\<lparr>fd := 3\<rparr>" ?data 3] b1(2-6)
    by (simp add: second_fails_replies_def)
  have ptB: "prepared_through 3 ?b3 1 ?b2"
    using prepared_through.one_more [OF prepared_through.none_yet b1(1)] by simp
  have ltB: "1 < htlb_num_segs ?b3" by simp
  have negB: "(- 1 :: int) < 0" by simp

  note thmA = remap_only_after_all_segments_prepared [of ?sA 3 ?img]
  note thmB = remap_only_after_all_segments_prepared [of ?sB 3 ?img ?b3 1 ?b2 "- 1" ?data ?b5]
  from thmA premA have concA:
    "\<exists>s3 s4. select_segments ?img ?sA = Returns True s3
          \<and> prepared_through 3 s3 (htlb_num_segs s3) s4
          \<and> (\<forall>e\<in>set (new_events ?sA s4). \<not> remap_event e)
          \<and> setup_elflink 3 ?img ?sA = remap_segments (htlb_seg_table s4) (htlb_num_segs s4) s4
          \<and> (\<forall>e\<in>set (new_events s4 (state_of (setup_elflink 3 ?img ?sA))). remap_event e)"
    by blast
  then obtain s3 s4 where c: "select_segments ?img ?sA = Returns True s3"
      "prepared_through 3 s3 (htlb_num_segs s3) s4"
      "\<forall>e\<in>set (new_events ?sA s4). \<not> remap_event e"
      "setup_elflink 3 ?img ?sA = remap_segments (htlb_seg_table s4) (htlb_num_segs s4) s4"
      "\<forall>e\<in>set (new_events s4 (state_of (setup_elflink 3 ?img ?sA))). remap_event e"
    by blast
  from c(1) selA have "s3 = ?a3" by simp
  then have n3: "htlb_num_segs s3 = 2" by simp
  have partA: "\<exists>s3 s4. select_segments ?img ?sA = Returns True s3
          \<and> htlb_num_segs s3 = 2
          \<and> prepared_through 3 s3 (htlb_num_segs s3) s4
          \<and> (\<forall>e\<in>set (new_events ?sA s4). \<not> remap_event e)
          \<and> setup_elflink 3 ?img ?sA = remap_segments (htlb_seg_table s4) (htlb_num_segs s4) s4
          \<and> (\<forall>e\<in>set (new_events s4 (state_of (setup_elflink 3 ?img ?sA))). remap_event e)"
    using c n3 by blast
  from thmB selB ltB ptB b5 negB have concB:
    "\<exists>s5. setup_elflink 3 ?img ?sB = Returns () s5
          \<and> (\<forall>e\<in>set (new_events ?sB s5). \<not> remap_event e)"
    by blast
  have partB: "\<exists>s3 sk seg' s'. select_segments ?img ?sB = Returns True s3
        \<and> 1 < htlb_num_segs s3 \<and> prepared_through 3 s3 1 sk
        \<and> obtain_prepared_file 3 (htlb_seg_table sk ! 1) sk = Returns (- 1, seg') s'"
    using selB ltB ptB b5 by blast
  from premA partA partB concB show ?thesis by blast
qed

end
